theory Spec2Isabelle
  imports Main "HOL-Library.Sublist" "HOL-Library.Multiset"
begin

section \<open>tiny-postgres-migrator: a shallow embedding of migrate.js\<close>

text \<open>
  The repository is one JavaScript module in two variants with the same control
  structure: one on the \<^verbatim>\<open>postgres\<close> driver (\<^verbatim>\<open>sql.begin\<close>) and one on
  \<^verbatim>\<open>slonik\<close> (\<^verbatim>\<open>pool.transaction\<close>). The definitions below follow the
  \<^verbatim>\<open>postgres\<close> variant function by function; where the \<^verbatim>\<open>slonik\<close>
  variant differs the text says so. (The slonik variant also opens a connection pool
  in each exported function and ends it before returning; pools are not modelled.)

  Conventions of the embedding.
  \<^item> A JavaScript string is a \<open>string\<close>; a \<open>char\<close> stands for one UTF-16 code unit
    below 256, so locations are Latin-1 text.
  \<^item> A JavaScript number that holds an order key is a \<open>jsnum\<close>: \<open>NaN\<close>, an infinity,
    or \<open>Num k\<close>, the double whose value is the integer \<open>k\<close>. Integers are rounded to
    the nearest double where the source rounds them (from \<open>2 ^ 53\<close> on); negative zero
    is identified with zero.
  \<^item> A rejected promise or a thrown exception is the \<open>Inl\<close> of a sum.
  \<^item> The database and the console are a \<open>world\<close> that every asynchronous function
    takes and returns.
\<close>

subsection \<open>Strings: \<^verbatim>\<open>lastIndexOf\<close>, \<^verbatim>\<open>slice\<close>, \<^verbatim>\<open>parseInt\<close>\<close>

datatype jsnum = NaN | Num int | Infinity | NegInfinity

text \<open>The double nearest to an integer. A double has a significand of 53 bits:
  \<open>excessBits n\<close> is the number of low bits of \<open>n\<close> that do not fit, and \<open>roundNat\<close>
  rounds them away, to the nearest, a tie to the even significand. From
  \<open>2 ^ 1024\<close> on the result is an infinity.\<close>

function excessBits :: "nat \<Rightarrow> nat" where
  "excessBits n = (if n < 2 ^ 53 then 0 else Suc (excessBits (n div 2)))"
  by pat_completeness auto
termination
  by (relation "measure (\<lambda>n. n)") auto

declare excessBits.simps [simp del]

definition roundNat :: "nat \<Rightarrow> nat" where
  "roundNat n =
     (let e = excessBits n; q = n div 2 ^ e; r = n mod 2 ^ e
      in if 2 * r < 2 ^ e \<or> (2 * r = 2 ^ e \<and> even q) then q * 2 ^ e else (q + 1) * 2 ^ e)"

definition toDouble :: "int \<Rightarrow> jsnum" where
  "toDouble i =
     (let m = roundNat (nat \<bar>i\<bar>)
      in if 2 ^ 1024 \<le> m then (if i < 0 then NegInfinity else Infinity)
         else Num (if i < 0 then - int m else int m))"

text \<open>\<^verbatim>\<open>String.prototype.lastIndexOf\<close> for a one-character pattern: the index of the
  last occurrence, \<open>-1\<close> when there is none.\<close>

fun lastIndexOf :: "string \<Rightarrow> char \<Rightarrow> int" where
  "lastIndexOf [] c = - 1"
| "lastIndexOf (x # xs) c =
     (let r = lastIndexOf xs c
      in if 0 \<le> r then r + 1 else if x = c then 0 else - 1)"

text \<open>\<^verbatim>\<open>String.prototype.slice(start, end)\<close>: a negative index counts from the end,
  both are clamped to the string, and an empty range gives the empty string.\<close>

definition slice :: "string \<Rightarrow> int \<Rightarrow> int \<Rightarrow> string" where
  "slice s start end =
     (let len = int (length s);
          from = (if start < 0 then max (len + start) 0 else min start len);
          to = (if end < 0 then max (len + end) 0 else min end len)
      in take (nat (to - from)) (drop (nat from) s))"

text \<open>The white space that \<^verbatim>\<open>parseInt\<close> skips, among the code units below 256: TAB,
  LF, VT, FF, CR, SP and NBSP.\<close>

definition isWhiteSpace :: "char \<Rightarrow> bool" where
  "isWhiteSpace c = ((of_char c :: nat) \<in> {9, 10, 11, 12, 13, 32, 160})"

definition digitValue :: "char \<Rightarrow> nat option" where
  "digitValue c =
     (let k = (of_char c :: nat)
      in if 48 \<le> k \<and> k \<le> 57 then Some (k - 48)
         else if 97 \<le> k \<and> k \<le> 122 then Some (k - 87)
         else if 65 \<le> k \<and> k \<le> 90 then Some (k - 55)
         else None)"

definition isRadixDigit :: "nat \<Rightarrow> char \<Rightarrow> bool" where
  "isRadixDigit R c = (case digitValue c of None \<Rightarrow> False | Some v \<Rightarrow> v < R)"

definition toMathInt :: "nat \<Rightarrow> string \<Rightarrow> nat" where
  "toMathInt R Z =
     foldl (\<lambda>acc c. case digitValue c of None \<Rightarrow> acc | Some v \<Rightarrow> acc * R + v) 0 Z"

text \<open>\<^verbatim>\<open>parseInt(string)\<close> with no radix argument, after ECMAScript 19.2.5: leading
  white space is dropped, one sign is read, a prefix \<^verbatim>\<open>0x\<close> or \<^verbatim>\<open>0X\<close> selects
  radix 16, and the longest prefix of digits of the radix is the value, as the Number
  nearest to it; no digit at all gives \<open>NaN\<close>. (ECMAScript lets an implementation
  read the decimal digits after the twentieth as zeros; node rounds correctly, and so
  does the model.)\<close>

definition parseInt :: "string \<Rightarrow> jsnum" where
  "parseInt inputString =
     (let S = dropWhile isWhiteSpace inputString;
          sign = (if S \<noteq> [] \<and> hd S = CHR ''-'' then - 1 else 1 :: int);
          S1 = (if S \<noteq> [] \<and> (hd S = CHR ''+'' \<or> hd S = CHR ''-'') then tl S else S);
          hex = (take 2 S1 = ''0x'' \<or> take 2 S1 = ''0X'');
          R = (if hex then 16 else 10);
          S2 = (if hex then drop 2 S1 else S1);
          Z = takeWhile (isRadixDigit R) S2
      in if Z = [] then NaN else toDouble (sign * int (toMathInt R Z)))"

subsection \<open>Descriptors and discovery\<close>

record migration =
  order :: jsnum
  location :: string
  name :: string

definition migrationLocationToMigration :: "string \<Rightarrow> migration" where
  "migrationLocationToMigration loc =
     (let pluginName = slice loc (lastIndexOf loc CHR ''/'' + 1) (lastIndexOf loc CHR ''.'')
      in \<lparr> order = parseInt pluginName, location = loc, name = pluginName \<rparr>)"

text \<open>The environment outside the database, read and never written by the functions
  modelled here: \<^verbatim>\<open>fs.existsSync\<close>, the result of \<^verbatim>\<open>glob\<close> on a pattern, and
  \<^verbatim>\<open>require\<close>, which loads the migration unit at a path (or throws). A unit exports
  \<^verbatim>\<open>up\<close> and \<^verbatim>\<open>down\<close>; each is given the transaction's handle, so it acts on the
  database as the transaction sees it. It returns the database its statements left,
  and whether it resolved or threw: a unit can change the schema and then throw. A
  unit that lacks an export is one whose operation throws at once. The last field is
  the engine's \<^verbatim>\<open>Array.prototype.sort\<close> on an array whose comparator is not
  consistent (see \<open>array_sort\<close> below).\<close>

datatype error =
    GlobError
  | CannotFindModule string
  | UnitError string
  | UndefinedTable
  | UniqueViolation string

text \<open>The database: whatever the units' statements act on (\<open>schema\<close>), and the rows of
  the table \<^verbatim>\<open>migrations\<close> in insertion order, \<open>None\<close> while the table does not
  exist. A row is its \<^verbatim>\<open>name\<close>; the column \<^verbatim>\<open>timestamp\<close> is never read.\<close>

record 's database =
  schema :: 's
  migrations_table :: "string list option"

record 's migration_code =
  up :: "'s database \<Rightarrow> (error + unit) \<times> 's database"
  down :: "'s database \<Rightarrow> (error + unit) \<times> 's database"

record 's env =
  existsSync :: "string \<Rightarrow> bool"
  glob :: "string \<Rightarrow> error + string list"
  require :: "string \<Rightarrow> 's migration_code option"
  engine_sort :: "migration list \<Rightarrow> migration list"

definition findMigrationsIn :: "'s env \<Rightarrow> string \<Rightarrow> error + migration list" where
  "findMigrationsIn env dir_prefix =
     (case glob env (dir_prefix @ ''/*.js'') of
        Inl er \<Rightarrow> Inl er
      | Inr files \<Rightarrow> Inr (map migrationLocationToMigration files))"

text \<open>The loop of \<^verbatim>\<open>findAllMigrations\<close>: the descriptors of every path, concatenated
  in the order of the paths; the first failing \<^verbatim>\<open>glob\<close> rejects.\<close>

fun findAllLoop :: "'s env \<Rightarrow> string list \<Rightarrow> migration list \<Rightarrow> error + migration list" where
  "findAllLoop env [] migrations = Inr migrations"
| "findAllLoop env (p # paths) migrations =
     (case findMigrationsIn env p of
        Inl er \<Rightarrow> Inl er
      | Inr found \<Rightarrow> findAllLoop env paths (migrations @ found))"

text \<open>JavaScript subtraction on order keys, and the comparator
  \<^verbatim>\<open>(a, b) => a.order - b.order\<close>. The difference of two doubles is the double
  nearest to the exact difference; infinities of the same sign have no difference.\<close>

fun jsnum_minus :: "jsnum \<Rightarrow> jsnum \<Rightarrow> jsnum" where
  "jsnum_minus (Num a) (Num b) = toDouble (a - b)"
| "jsnum_minus NaN _ = NaN"
| "jsnum_minus _ NaN = NaN"
| "jsnum_minus Infinity Infinity = NaN"
| "jsnum_minus NegInfinity NegInfinity = NaN"
| "jsnum_minus Infinity _ = Infinity"
| "jsnum_minus NegInfinity _ = NegInfinity"
| "jsnum_minus (Num a) Infinity = NegInfinity"
| "jsnum_minus (Num a) NegInfinity = Infinity"

definition compareOrder :: "migration \<Rightarrow> migration \<Rightarrow> jsnum" where
  "compareOrder a b = jsnum_minus (order a) (order b)"

text \<open>\<^verbatim>\<open>Array.prototype.sort(comparefn)\<close>. ECMAScript fixes the result for a consistent
  comparator: sorted, and stable; \<open>js_sort\<close> is that result, computed as the stable
  insertion sort, which moves an element past another only when the comparator is
  positive.\<close>

fun comparator_positive :: "jsnum \<Rightarrow> bool" where
  "comparator_positive NaN = False"
| "comparator_positive (Num v) = (0 < v)"
| "comparator_positive Infinity = True"
| "comparator_positive NegInfinity = False"

fun sort_insert :: "('a \<Rightarrow> 'a \<Rightarrow> jsnum) \<Rightarrow> 'a \<Rightarrow> 'a list \<Rightarrow> 'a list" where
  "sort_insert comparefn x [] = [x]"
| "sort_insert comparefn x (y # ys) =
     (if comparator_positive (comparefn x y) then y # sort_insert comparefn x ys
      else x # y # ys)"

definition js_sort :: "('a \<Rightarrow> 'a \<Rightarrow> jsnum) \<Rightarrow> 'a list \<Rightarrow> 'a list" where
  "js_sort comparefn xs = foldr (sort_insert comparefn) xs []"

text \<open>The comparator of \<^verbatim>\<open>findAllMigrations\<close> is consistent on an array exactly when
  every order key is a finite number: with a key \<open>NaN\<close> or infinite, some difference
  is \<open>NaN\<close>. On such an array ECMAScript leaves the order to the implementation, and
  the result is whatever permutation the engine produces (\<open>engine_sort\<close>, a parameter
  of the environment; an \<open>engine_sort\<close> that does not return a permutation stands
  for no engine, and the array is left as it is).\<close>

fun is_integer :: "jsnum \<Rightarrow> bool" where
  "is_integer (Num k) = True"
| "is_integer _ = False"

definition array_sort :: "'s env \<Rightarrow> migration list \<Rightarrow> migration list" where
  "array_sort env migrations =
     (if \<forall>m \<in> set migrations. is_integer (order m) then js_sort compareOrder migrations
      else if mset (engine_sort env migrations) = mset migrations
           then engine_sort env migrations
           else migrations)"

definition findAllMigrations :: "'s env \<Rightarrow> string list \<Rightarrow> error + migration list" where
  "findAllMigrations env paths =
     (case findAllLoop env paths [] of
        Inl er \<Rightarrow> Inl er
      | Inr migrations \<Rightarrow> Inr (array_sort env migrations))"

subsection \<open>The database handle, the console and transactions\<close>

text \<open>What the program prints, one constructor per \<^verbatim>\<open>console.log\<close> of the functions
  modelled.\<close>

datatype message =
    RunningMigration string
  | RunAbortedNotFound string
  | RunAbortedAlreadyApplied string
  | RevertAbortedNotFound string
  | RevertAbortedNoRow string
  | RevertingMigration string
  | AppliedCount nat
  | NoNewMigrations

text \<open>The effects of a run in the order they happen: console lines, the statements sent
  to the database, the begin and the end of a transaction, and the calls of a unit's
  operations (by the unit's location). A rollback undoes the database, never the
  trace.\<close>

datatype event =
    Log message
  | SelectCount string
  | SelectTableExists
  | CreateTable
  | Begin
  | Commit
  | Rollback
  | CallUp string
  | CallDown string
  | InsertName string
  | DeleteName string

record 's world =
  db :: "'s database"
  trace :: "event list"

definition emit :: "event \<Rightarrow> 's world \<Rightarrow> 's world" where
  "emit e w = w\<lparr>trace := trace w @ [e]\<rparr>"

text \<open>What an exported function resolves to.\<close>

datatype jsval = Undefined | Number int

text \<open>\<^verbatim>\<open>sql.begin(callback)\<close> (\<^verbatim>\<open>pool.transaction(callback)\<close> in the slonik variant), the
  driver's scoped transaction: BEGIN, the callback on the transaction's handle, then
  COMMIT when the callback resolves, or ROLLBACK and the callback's error when it
  rejects.\<close>

definition begin_transaction ::
  "('s world \<Rightarrow> (error + 'a) \<times> 's world) \<Rightarrow> 's world \<Rightarrow> (error + 'a) \<times> 's world" where
  "begin_transaction callback w =
     (case callback (emit Begin w) of
        (Inl e, w') \<Rightarrow> (Inl e, emit Rollback (w'\<lparr>db := db w\<rparr>))
      | (Inr v, w') \<Rightarrow> (Inr v, emit Commit w'))"

text \<open>\<^verbatim>\<open>select count (*) from migrations where name=${migration.name}\<close>, and the test
  \<^verbatim>\<open>count != 0\<close>.\<close>

definition hasBeenRun :: "migration \<Rightarrow> 's world \<Rightarrow> (error + bool) \<times> 's world" where
  "hasBeenRun migration w =
     (let w1 = emit (SelectCount (name migration)) w
      in case migrations_table (db w1) of
           None \<Rightarrow> (Inl UndefinedTable, w1)
         | Some rows \<Rightarrow>
             (Inr (length (filter (\<lambda>n. n = name migration) rows) \<noteq> 0), w1))"

text \<open>\<^verbatim>\<open>insert into migrations (name) values (${migration.name})\<close>; the column is
  \<^verbatim>\<open>unique\<close>.\<close>

definition insert_migration :: "string \<Rightarrow> 's world \<Rightarrow> (error + unit) \<times> 's world" where
  "insert_migration n w =
     (let w1 = emit (InsertName n) w
      in case migrations_table (db w1) of
           None \<Rightarrow> (Inl UndefinedTable, w1)
         | Some rows \<Rightarrow>
             if n \<in> set rows then (Inl (UniqueViolation n), w1)
             else (Inr (), w1\<lparr>db := (db w1)\<lparr>migrations_table := Some (rows @ [n])\<rparr>\<rparr>))"

text \<open>\<^verbatim>\<open>delete from migrations where name=${m.name}\<close>.\<close>

definition delete_migration :: "string \<Rightarrow> 's world \<Rightarrow> (error + unit) \<times> 's world" where
  "delete_migration n w =
     (let w1 = emit (DeleteName n) w
      in case migrations_table (db w1) of
           None \<Rightarrow> (Inl UndefinedTable, w1)
         | Some rows \<Rightarrow>
             (Inr (), w1\<lparr>db := (db w1)\<lparr>migrations_table := Some (filter (\<lambda>r. r \<noteq> n) rows)\<rparr>\<rparr>))"

subsection \<open>Applying and reverting one migration\<close>

text \<open>\<^verbatim>\<open>_applyMigration(sql, migration)\<close>: inside one transaction, print the line,
  load the unit, await its \<^verbatim>\<open>up\<close> on the transaction's handle, insert the name;
  after the transaction, return \<^verbatim>\<open>true\<close>. (An Isabelle name cannot start with an
  underscore.)\<close>

definition underscore_applyMigration ::
  "'s env \<Rightarrow> migration \<Rightarrow> 's world \<Rightarrow> (error + bool) \<times> 's world" where
  "underscore_applyMigration env migration w =
     (case begin_transaction
            (\<lambda>sql.
               let sql1 = emit (Log (RunningMigration (name migration))) sql
               in case require env (location migration) of
                    None \<Rightarrow> (Inl (CannotFindModule (location migration)), sql1)
                  | Some migration_code \<Rightarrow>
                      (let sql2 = emit (CallUp (location migration)) sql1
                       in case up migration_code (db sql2) of
                            (Inl e, d) \<Rightarrow> (Inl e, sql2\<lparr>db := d\<rparr>)
                          | (Inr _, d) \<Rightarrow> insert_migration (name migration) (sql2\<lparr>db := d\<rparr>)))
            w of
        (Inl e, w') \<Rightarrow> (Inl e, w')
      | (Inr _, w') \<Rightarrow> (Inr True, w'))"

definition applyMigration ::
  "'s env \<Rightarrow> string \<Rightarrow> 's world \<Rightarrow> (error + jsval) \<times> 's world" where
  "applyMigration env migration_loc w =
     (if \<not> existsSync env migration_loc
      then (Inr Undefined, emit (Log (RunAbortedNotFound migration_loc)) w)
      else
        let m = migrationLocationToMigration migration_loc
        in case hasBeenRun m w of
             (Inl e, w1) \<Rightarrow> (Inl e, w1)
           | (Inr run, w1) \<Rightarrow>
               if \<not> run
               then (case underscore_applyMigration env m w1 of
                       (Inl e, w2) \<Rightarrow> (Inl e, w2)
                     | (Inr _, w2) \<Rightarrow> (Inr Undefined, w2))
               else (Inr Undefined, emit (Log (RunAbortedAlreadyApplied migration_loc)) w1))"

definition revertMigration ::
  "'s env \<Rightarrow> string \<Rightarrow> 's world \<Rightarrow> (error + jsval) \<times> 's world" where
  "revertMigration env migration_loc w =
     (if \<not> existsSync env migration_loc
      then (Inr Undefined, emit (Log (RevertAbortedNotFound migration_loc)) w)
      else
        let m = migrationLocationToMigration migration_loc
        in case hasBeenRun m w of
             (Inl e, w1) \<Rightarrow> (Inl e, w1)
           | (Inr run, w1) \<Rightarrow>
               if \<not> run
               then (Inr Undefined, emit (Log (RevertAbortedNoRow (name m))) w1)
               else
                 (case begin_transaction
                         (\<lambda>sql.
                            let sql1 = emit (Log (RevertingMigration (location m))) sql
                            in case require env (location m) of
                                 None \<Rightarrow> (Inl (CannotFindModule (location m)), sql1)
                               | Some migration_code \<Rightarrow>
                                   (let sql2 = emit (CallDown (location m)) sql1
                                    in case down migration_code (db sql2) of
                                         (Inl e, d) \<Rightarrow> (Inl e, sql2\<lparr>db := d\<rparr>)
                                       | (Inr _, d) \<Rightarrow> delete_migration (name m) (sql2\<lparr>db := d\<rparr>)))
                         w1 of
                    (Inl e, w2) \<Rightarrow> (Inl e, w2)
                  | (Inr _, w2) \<Rightarrow> (Inr Undefined, w2)))"

subsection \<open>Applying all pending migrations\<close>

text \<open>\<^verbatim>\<open>createMigrationTable\<close>: ask whether the table exists, create it when it does
  not. (The slonik variant sends the one statement
  \<^verbatim>\<open>create table if not exists\<close>, with the same effect on the database.)\<close>

definition createMigrationTable :: "'s world \<Rightarrow> (error + unit) \<times> 's world" where
  "createMigrationTable w =
     (let w1 = emit SelectTableExists w
      in case migrations_table (db w1) of
           Some rows \<Rightarrow> (Inr (), w1)
         | None \<Rightarrow>
             (Inr (), (emit CreateTable w1)\<lparr>db := (db w1)\<lparr>migrations_table := Some []\<rparr>\<rparr>))"

text \<open>The \<^verbatim>\<open>for (const m of migrations)\<close> loop of \<^verbatim>\<open>applyAllMigrations\<close>, with the
  counter \<^verbatim>\<open>num_run\<close>; an error of \<^verbatim>\<open>hasBeenRun\<close> or of \<^verbatim>\<open>_applyMigration\<close> leaves
  the loop and the function.\<close>

fun applyAllLoop ::
  "'s env \<Rightarrow> migration list \<Rightarrow> nat \<Rightarrow> 's world \<Rightarrow> (error + nat) \<times> 's world" where
  "applyAllLoop env [] num_run w = (Inr num_run, w)"
| "applyAllLoop env (m # ms) num_run w =
     (case hasBeenRun m w of
        (Inl e, w1) \<Rightarrow> (Inl e, w1)
      | (Inr run, w1) \<Rightarrow>
          if \<not> run
          then (case underscore_applyMigration env m w1 of
                  (Inl e, w2) \<Rightarrow> (Inl e, w2)
                | (Inr applied, w2) \<Rightarrow>
                    applyAllLoop env ms (if applied then num_run + 1 else num_run) w2)
          else applyAllLoop env ms num_run w1)"

definition applyAllMigrations ::
  "'s env \<Rightarrow> string list \<Rightarrow> 's world \<Rightarrow> (error + jsval) \<times> 's world" where
  "applyAllMigrations env paths w =
     (case createMigrationTable w of
        (Inl e, w1) \<Rightarrow> (Inl e, w1)
      | (Inr _, w1) \<Rightarrow>
          (case findAllMigrations env paths of
             Inl e \<Rightarrow> (Inl e, w1)
           | Inr migrations \<Rightarrow>
               (case applyAllLoop env migrations 0 w1 of
                  (Inl e, w2) \<Rightarrow> (Inl e, w2)
                | (Inr num_run, w2) \<Rightarrow>
                    if num_run \<noteq> 0
                    then (Inr Undefined, emit (Log (AppliedCount num_run)) w2)
                    else (Inr Undefined, emit (Log NoNewMigrations) w2))))"

subsection \<open>Observations on a run\<close>

text \<open>The vocabulary of the properties below. None of it is code of the program.\<close>

definition emits :: "event list \<Rightarrow> 's world \<Rightarrow> 's world" where
  "emits es w = w\<lparr>trace := trace w @ es\<rparr>"

text \<open>The events a run added, from the world before and the world after it.\<close>

definition new_events :: "'s world \<Rightarrow> 's world \<Rightarrow> event list" where
  "new_events w w' = drop (length (trace w)) (trace w')"

text \<open>The rows of the ledger; a table that does not exist has none.\<close>

definition ledger_rows :: "'s database \<Rightarrow> string list" where
  "ledger_rows d = (case migrations_table d of None \<Rightarrow> [] | Some rows \<Rightarrow> rows)"

definition count_commits :: "event list \<Rightarrow> nat" where
  "count_commits tr = length (filter (\<lambda>e. e = Commit) tr)"

text \<open>The names for which \<^verbatim>\<open>_applyMigration\<close> was entered, in order: its first effect
  inside the transaction is the line \<^verbatim>\<open>Running migration <name>\<close>.\<close>

fun started :: "event list \<Rightarrow> string list" where
  "started [] = []"
| "started (Log (RunningMigration n) # tr) = n # started tr"
| "started (e # tr) = started tr"

text \<open>The locations of the units whose \<^verbatim>\<open>up\<close> was called, in order.\<close>

fun ups_called :: "event list \<Rightarrow> string list" where
  "ups_called [] = []"
| "ups_called (CallUp l # tr) = l # ups_called tr"
| "ups_called (e # tr) = ups_called tr"

text \<open>The names the guard \<^verbatim>\<open>hasBeenRun\<close> asked for, and the names the program's
  \<^verbatim>\<open>delete\<close> statements named, in order.\<close>

fun guarded :: "event list \<Rightarrow> string list" where
  "guarded [] = []"
| "guarded (SelectCount n # tr) = n # guarded tr"
| "guarded (e # tr) = guarded tr"

fun deletes :: "event list \<Rightarrow> string list" where
  "deletes [] = []"
| "deletes (DeleteName n # tr) = n # deletes tr"
| "deletes (e # tr) = deletes tr"

text \<open>The lines that report how many migrations a batch applied.\<close>

fun is_report :: "event \<Rightarrow> bool" where
  "is_report (Log (AppliedCount k)) = True"
| "is_report (Log NoNewMigrations) = True"
| "is_report e = False"

text \<open>JavaScript \<^verbatim>\<open><\<close> on order keys: false when either side is \<open>NaN\<close>.\<close>

fun jsnum_less :: "jsnum \<Rightarrow> jsnum \<Rightarrow> bool" where
  "jsnum_less (Num a) (Num b) = (a < b)"
| "jsnum_less NegInfinity (Num b) = True"
| "jsnum_less NegInfinity Infinity = True"
| "jsnum_less (Num a) Infinity = True"
| "jsnum_less _ _ = False"

text \<open>The order key as an integer, for descriptors whose key is a finite number.\<close>

definition order_int :: "migration \<Rightarrow> int" where
  "order_int m = (case order m of Num k \<Rightarrow> k | _ \<Rightarrow> 0)"

text \<open>The units of an environment leave the table \<^verbatim>\<open>migrations\<close> to the program:
  whatever else their statements do, the ledger is the same after an \<^verbatim>\<open>up\<close> or a
  \<^verbatim>\<open>down\<close> that resolved as before it.\<close>

definition units_keep_ledger :: "'s env \<Rightarrow> bool" where
  "units_keep_ledger env =
     (\<forall>loc code d d'. require env loc = Some code \<longrightarrow>
        (up code d = (Inr (), d') \<longrightarrow> migrations_table d' = migrations_table d) \<and>
        (down code d = (Inr (), d') \<longrightarrow> migrations_table d' = migrations_table d))"

text \<open>The descriptors whose names the ledger does not hold.\<close>

definition pending :: "'s database \<Rightarrow> migration list \<Rightarrow> migration list" where
  "pending d ms = filter (\<lambda>m. name m \<notin> set (ledger_rows d)) ms"

text \<open>The files that \<^verbatim>\<open>glob\<close> returns for the paths, in the order of the paths.\<close>

definition globbed :: "'s env \<Rightarrow> string list \<Rightarrow> string list" where
  "globbed env paths =
     concat (map (\<lambda>p. case glob env (p @ ''/*.js'') of Inl er \<Rightarrow> [] | Inr files \<Rightarrow> files) paths)"

text \<open>The specification's reading of the order key, in its own words: ``the integer
  parsed from the leading digits of the name'', whatever its size, and no number when
  the name does not begin with a decimal digit.\<close>

definition isDecimalDigit :: "char \<Rightarrow> bool" where
  "isDecimalDigit c = (48 \<le> (of_char c :: nat) \<and> (of_char c :: nat) \<le> 57)"

definition leading_digits_order :: "string \<Rightarrow> jsnum" where
  "leading_digits_order n =
     (let ds = takeWhile isDecimalDigit n
      in if ds = [] then NaN else Num (int (toMathInt 10 ds)))"

text \<open>A name that \<^verbatim>\<open>parseInt\<close> reads in radix 16.\<close>

definition hex_prefixed :: "string \<Rightarrow> bool" where
  "hex_prefixed n = (take 2 n = ''0x'' \<or> take 2 n = ''0X'')"

subsection \<open>An example installation\<close>

text \<open>The scenario of the specification: root \<^verbatim>\<open>P1\<close> holds
  \<^verbatim>\<open>10-create_users\<close> and \<^verbatim>\<open>30-add_index\<close>, root \<^verbatim>\<open>P2\<close> holds
  \<^verbatim>\<open>20-add_email\<close>; a third root \<^verbatim>\<open>P3\<close> holds a file with no order key. The
  schema is the list of the things created so far.\<close>

definition create_unit :: "string \<Rightarrow> string list migration_code" where
  "create_unit t =
     \<lparr> up = (\<lambda>d. (Inr (), d\<lparr>schema := schema d @ [t]\<rparr>)),
       down = (\<lambda>d. (Inr (), d\<lparr>schema := removeAll t (schema d)\<rparr>)) \<rparr>"

text \<open>A unit that makes its change and then throws.\<close>

definition throwing_unit :: "string \<Rightarrow> string list migration_code" where
  "throwing_unit t =
     \<lparr> up = (\<lambda>d. (Inl (UnitError t), d\<lparr>schema := schema d @ [t]\<rparr>)),
       down = (\<lambda>d. (Inl (UnitError t), d\<lparr>schema := removeAll t (schema d)\<rparr>)) \<rparr>"

text \<open>A unit whose \<^verbatim>\<open>up\<close>, besides its change, deletes the ledger row of another
  migration.\<close>

definition meddling_unit :: "string \<Rightarrow> string \<Rightarrow> string list migration_code" where
  "meddling_unit t victim =
     \<lparr> up = (\<lambda>d. (Inr (), d\<lparr>schema := schema d @ [t],
                              migrations_table :=
                                map_option (filter (\<lambda>r. r \<noteq> victim)) (migrations_table d)\<rparr>)),
       down = (\<lambda>d. (Inr (), d\<lparr>schema := removeAll t (schema d)\<rparr>)) \<rparr>"

definition example_files :: "string \<Rightarrow> error + string list" where
  "example_files pattern =
     (if pattern = ''P1/*.js'' then Inr [''P1/10-create_users.js'', ''P1/30-add_index.js'']
      else if pattern = ''P2/*.js'' then Inr [''P2/20-add_email.js'']
      else if pattern = ''P3/*.js'' then Inr [''P3/readme.js'']
      else Inr [])"

definition example_env :: "string list env" where
  "example_env =
     \<lparr> existsSync = (\<lambda>p. p = ''P1/10-create_users.js'' \<or> p = ''P1/30-add_index.js'' \<or>
                          p = ''P2/20-add_email.js'' \<or> p = ''P3/readme.js''),
       glob = example_files,
       require = (\<lambda>p. if p = ''P1/10-create_users.js'' then Some (create_unit ''users'')
                      else if p = ''P1/30-add_index.js'' then Some (create_unit ''index'')
                      else if p = ''P2/20-add_email.js'' then Some (create_unit ''email'')
                      else None),
       engine_sort = rev \<rparr>"

text \<open>The same installation with a unit \<^verbatim>\<open>20-add_email\<close> whose \<^verbatim>\<open>up\<close> adds the
  column and then throws.\<close>

definition failing_env :: "string list env" where
  "failing_env =
     example_env\<lparr> require :=
       (\<lambda>p. if p = ''P2/20-add_email.js'' then Some (throwing_unit ''email'')
            else require example_env p) \<rparr>"

text \<open>The same installation with a unit \<^verbatim>\<open>20-add_email\<close> whose \<^verbatim>\<open>up\<close> also deletes
  the ledger row of \<^verbatim>\<open>10-create_users\<close>; and that one with a unit
  \<^verbatim>\<open>30-add_index\<close> that throws.\<close>

definition meddling_env :: "string list env" where
  "meddling_env =
     example_env\<lparr> require :=
       (\<lambda>p. if p = ''P2/20-add_email.js'' then Some (meddling_unit ''email'' ''10-create_users'')
            else require example_env p) \<rparr>"


definition empty_world :: "string list world" where
  "empty_world = \<lparr> db = \<lparr> schema = [], migrations_table = None \<rparr>, trace = [] \<rparr>"

definition m10 :: migration where
  "m10 = \<lparr> order = Num 10, location = ''P1/10-create_users.js'', name = ''10-create_users'' \<rparr>"

definition m20 :: migration where
  "m20 = \<lparr> order = Num 20, location = ''P2/20-add_email.js'', name = ''20-add_email'' \<rparr>"

definition m30 :: migration where
  "m30 = \<lparr> order = Num 30, location = ''P1/30-add_index.js'', name = ''30-add_index'' \<rparr>"

text \<open>The descriptor of the file without an order key.\<close>

definition readme :: migration where
  "readme = \<lparr> order = NaN, location = ''P3/readme.js'', name = ''readme'' \<rparr>"

text \<open>A database whose ledger exists and is empty, and one where \<^verbatim>\<open>10-create_users\<close>
  has been applied.\<close>

definition fresh_world :: "string list world" where
  "fresh_world = \<lparr> db = \<lparr> schema = [], migrations_table = Some [] \<rparr>, trace = [] \<rparr>"

definition world10 :: "string list world" where
  "world10 =
     \<lparr> db = \<lparr> schema = [''users''], migrations_table = Some [''10-create_users''] \<rparr>,
       trace = [] \<rparr>"

section \<open>Properties\<close>

subsection \<open>Auxiliary facts\<close>

lemma hasBeenRun_result:
  "fst (hasBeenRun m w) =
     (case migrations_table (db w) of
        None \<Rightarrow> Inl UndefinedTable
      | Some rows \<Rightarrow> Inr (name m \<in> set rows))"
  by (simp add: hasBeenRun_def emit_def Let_def filter_empty_conv split: option.splits)

lemma hasBeenRun_world: "snd (hasBeenRun m w) = emits [SelectCount (name m)] w"
  by (simp add: hasBeenRun_def Let_def emit_def emits_def split: option.splits)

lemma hasBeenRun_eq:
  "hasBeenRun m w =
     (case migrations_table (db w) of
        None \<Rightarrow> Inl UndefinedTable
      | Some rows \<Rightarrow> Inr (name m \<in> set rows),
      emits [SelectCount (name m)] w)"
  using hasBeenRun_result [of m w] hasBeenRun_world [of m w]
  by (metis prod.collapse)

text \<open>One apply, case by case: what it returns, what it prints and sends, and the
  database it leaves. Whatever a failed \<^verbatim>\<open>up\<close> left is gone after the rollback.\<close>

lemma underscore_applyMigration_eq:
  "underscore_applyMigration env m w =
    (case require env (location m) of
       None \<Rightarrow>
         (Inl (CannotFindModule (location m)),
          emits [Begin, Log (RunningMigration (name m)), Rollback] w)
     | Some code \<Rightarrow>
        (case up code (db w) of
           (Inl e, d) \<Rightarrow>
             (Inl e,
              emits [Begin, Log (RunningMigration (name m)), CallUp (location m), Rollback] w)
         | (Inr u, d) \<Rightarrow>
            (case migrations_table d of
               None \<Rightarrow>
                 (Inl UndefinedTable,
                  emits [Begin, Log (RunningMigration (name m)), CallUp (location m),
                         InsertName (name m), Rollback] w)
             | Some rows \<Rightarrow>
                 if name m \<in> set rows
                 then (Inl (UniqueViolation (name m)),
                       emits [Begin, Log (RunningMigration (name m)), CallUp (location m),
                              InsertName (name m), Rollback] w)
                 else (Inr True,
                       (emits [Begin, Log (RunningMigration (name m)), CallUp (location m),
                               InsertName (name m), Commit] w)
                         \<lparr>db := d\<lparr>migrations_table := Some (rows @ [name m])\<rparr>\<rparr>))))"
  by (simp add: underscore_applyMigration_def begin_transaction_def insert_migration_def
      emit_def emits_def Let_def split: option.splits sum.splits prod.splits)

lemma new_events_emits [simp]: "new_events w (emits es w) = es"
  by (simp add: new_events_def emits_def)

lemma new_events_emits_db [simp]: "new_events w ((emits es w)\<lparr>db := d\<rparr>) = es"
  by (simp add: new_events_def emits_def)

lemma db_emits [simp]: "db (emits es w) = db w"
  by (simp add: emits_def)

lemma trace_emits [simp]: "trace (emits es w) = trace w @ es"
  by (simp add: emits_def)

subsection \<open>C1: one apply is one transaction, all or nothing\<close>

text \<open>
  Claim C1. For a descriptor \<open>d\<close> whose name is not in the ledger,
  \<^verbatim>\<open>_applyMigration\<close> runs \<open>d\<close>'s \<^verbatim>\<open>up\<close> and the insertion of \<open>name d\<close> in one
  transaction: the run adds one \<open>Begin\<close>, and closes it with \<open>Commit\<close> exactly when
  the unit loads, its \<^verbatim>\<open>up\<close> resolves and the insertion succeeds; the database is then
  the one \<^verbatim>\<open>up\<close> left, with the row added, and \<^verbatim>\<open>hasBeenRun\<close> is true. In every
  other case the transaction ends with \<open>Rollback\<close>, the error is returned, and the
  database (schema and ledger) is the one before the call, whatever \<^verbatim>\<open>up\<close> had
  changed before it threw; \<^verbatim>\<open>hasBeenRun\<close> is still false. The slonik variant is the
  same function with \<^verbatim>\<open>pool.transaction\<close>.
\<close>

theorem applyMigration_atomic:
  assumes "fst (hasBeenRun d w) = Inr False"
    and "underscore_applyMigration env d w = (r, w')"
  shows "(\<exists>body. Begin \<notin> set body \<and> Commit \<notin> set body \<and> Rollback \<notin> set body \<and>
            new_events w w' = [Begin] @ body @ [if isl r then Rollback else Commit]) \<and>
         ((\<not> isl r) =
            (\<exists>code d1 rows. require env (location d) = Some code \<and>
               up code (db w) = (Inr (), d1) \<and>
               migrations_table d1 = Some rows \<and> name d \<notin> set rows)) \<and>
         (\<not> isl r \<longrightarrow>
            (\<exists>code d1. require env (location d) = Some code \<and>
               up code (db w) = (Inr (), d1) \<and>
               db w' = d1\<lparr>migrations_table := Some (ledger_rows d1 @ [name d])\<rparr>) \<and>
            fst (hasBeenRun d w') = Inr True) \<and>
         (isl r \<longrightarrow> db w' = db w \<and> fst (hasBeenRun d w') = Inr False)"
  using assms
  by (auto simp: hasBeenRun_result underscore_applyMigration_eq ledger_rows_def
      split: option.splits sum.splits if_splits prod.splits)

text \<open>With \<^verbatim>\<open>10-create_users\<close> applied and a \<^verbatim>\<open>20-add_email\<close> whose \<^verbatim>\<open>up\<close>
  adds its column and then throws: \<^verbatim>\<open>up\<close> itself leaves a changed schema, the apply
  returns the unit's error, and the database after the apply is the one before it.
  With the unit that resolves, the schema change and the row are both there.\<close>

theorem applyMigration_atomic_witness:
  "fst (hasBeenRun m20 world10) = Inr False \<and>
   up (throwing_unit ''email'') (db world10) =
     (Inl (UnitError ''email''),
      \<lparr> schema = [''users'', ''email''], migrations_table = Some [''10-create_users''] \<rparr>) \<and>
   fst (underscore_applyMigration failing_env m20 world10) = Inl (UnitError ''email'') \<and>
   db (snd (underscore_applyMigration failing_env m20 world10)) =
     \<lparr> schema = [''users''], migrations_table = Some [''10-create_users''] \<rparr> \<and>
   fst (hasBeenRun m20 (snd (underscore_applyMigration failing_env m20 world10))) = Inr False \<and>
   fst (underscore_applyMigration example_env m20 world10) = Inr True \<and>
   db (snd (underscore_applyMigration example_env m20 world10)) =
     \<lparr> schema = [''users'', ''email''],
       migrations_table = Some [''10-create_users'', ''20-add_email''] \<rparr> \<and>
   fst (hasBeenRun m20 (snd (underscore_applyMigration example_env m20 world10))) = Inr True"
proof -
  have p: "fst (hasBeenRun m20 world10) = Inr False"
    by (simp add: hasBeenRun_result m20_def world10_def)
  have u: "up (throwing_unit ''email'') (db world10) =
     (Inl (UnitError ''email''),
      \<lparr> schema = [''users'', ''email''], migrations_table = Some [''10-create_users''] \<rparr>)"
    by (simp add: throwing_unit_def world10_def)
  have f: "fst (underscore_applyMigration failing_env m20 world10) = Inl (UnitError ''email'')"
    by (simp add: underscore_applyMigration_def begin_transaction_def emit_def Let_def m20_def
        failing_env_def example_env_def throwing_unit_def)
  have s: "fst (underscore_applyMigration example_env m20 world10) = Inr True"
    by (simp add: underscore_applyMigration_def begin_transaction_def insert_migration_def
        emit_def Let_def m20_def world10_def example_env_def create_unit_def)
  have w: "db world10 = \<lparr> schema = [''users''], migrations_table = Some [''10-create_users''] \<rparr>"
    by (simp add: world10_def)
  from applyMigration_atomic [OF p surjective_pairing, of failing_env] f w
  have 1: "db (snd (underscore_applyMigration failing_env m20 world10)) =
        \<lparr> schema = [''users''], migrations_table = Some [''10-create_users''] \<rparr>"
    "fst (hasBeenRun m20 (snd (underscore_applyMigration failing_env m20 world10))) = Inr False"
    by simp_all
  from applyMigration_atomic [OF p surjective_pairing, of example_env] s
  obtain code d1 where
    c: "require example_env (location m20) = Some code" "up code (db world10) = (Inr (), d1)"
      "db (snd (underscore_applyMigration example_env m20 world10)) =
         d1\<lparr>migrations_table := Some (ledger_rows d1 @ [name m20])\<rparr>"
    and 2: "fst (hasBeenRun m20 (snd (underscore_applyMigration example_env m20 world10))) = Inr True"
    by auto
  from c(1) have "code = create_unit ''email''"
    by (simp add: example_env_def m20_def)
  with c(2,3) have 3: "db (snd (underscore_applyMigration example_env m20 world10)) =
     \<lparr> schema = [''users'', ''email''],
       migrations_table = Some [''10-create_users'', ''20-add_email''] \<rparr>"
    by (auto simp: create_unit_def world10_def ledger_rows_def m20_def)
  from p u f s 1 2 3 show ?thesis by simp
qed

subsection \<open>C8: a location that does not exist\<close>

text \<open>
  Claim C8 as stated: for a location that does not exist, the single apply and the
  single revert fail with a not-found error and touch no database. The code returns
  normally instead: at the example installation neither call yields an error.
\<close>

theorem missing_file_counterexample:
  "\<not> existsSync example_env ''P1/40-nothing.js'' \<and>
   \<not> isl (fst (applyMigration example_env ''P1/40-nothing.js'' fresh_world)) \<and>
   \<not> isl (fst (revertMigration example_env ''P1/40-nothing.js'' fresh_world))"
  by (simp add: applyMigration_def revertMigration_def example_env_def)

text \<open>
  Claim C8, amended. For a location that does not exist, \<^verbatim>\<open>applyMigration\<close> and
  \<^verbatim>\<open>revertMigration\<close> print their ``aborted, not found'' line and resolve to
  \<^verbatim>\<open>undefined\<close>; they raise nothing, send no statement, open no transaction, and the
  database is unchanged: the printed line is the only event of the call.
\<close>

theorem missing_file_no_database_access:
  assumes "\<not> existsSync env loc"
  shows "fst (applyMigration env loc w) = Inr Undefined \<and>
         new_events w (snd (applyMigration env loc w)) = [Log (RunAbortedNotFound loc)] \<and>
         db (snd (applyMigration env loc w)) = db w \<and>
         fst (revertMigration env loc w) = Inr Undefined \<and>
         new_events w (snd (revertMigration env loc w)) = [Log (RevertAbortedNotFound loc)] \<and>
         db (snd (revertMigration env loc w)) = db w"
  using assms
  by (simp add: applyMigration_def revertMigration_def emit_def new_events_def)

theorem missing_file_no_database_access_witness:
  "\<not> existsSync example_env ''P1/40-nothing.js'' \<and>
   fst (applyMigration example_env ''P1/40-nothing.js'' world10) = Inr Undefined \<and>
   new_events world10 (snd (applyMigration example_env ''P1/40-nothing.js'' world10)) =
     [Log (RunAbortedNotFound ''P1/40-nothing.js'')] \<and>
   db (snd (revertMigration example_env ''P1/40-nothing.js'' world10)) = db world10"
  using missing_file_no_database_access [of example_env "''P1/40-nothing.js''" world10]
  by (simp add: example_env_def)

subsection \<open>C6: reverting a migration that is not recorded\<close>

lemma excessBits_small: "n < 2 ^ 53 \<Longrightarrow> excessBits n = 0"
  by (simp add: excessBits.simps)

lemma roundNat_small: "n < 2 ^ 53 \<Longrightarrow> roundNat n = n"
  by (simp add: roundNat_def Let_def excessBits_small)

lemma toDouble_small: "\<bar>i\<bar> < 2 ^ 53 \<Longrightarrow> toDouble i = Num i"
proof -
  assume a: "\<bar>i\<bar> < 2 ^ 53"
  then have "nat \<bar>i\<bar> < 2 ^ 53"
    by (simp add: nat_less_iff)
  then have r: "roundNat (nat \<bar>i\<bar>) = nat \<bar>i\<bar>"
    by (rule roundNat_small)
  have "int (nat \<bar>i\<bar>) < 2 ^ 1024"
    using a by (simp add: order_less_trans [of "\<bar>i\<bar>" "2 ^ 53" "2 ^ 1024"])
  then have "\<not> (2 :: nat) ^ 1024 \<le> nat \<bar>i\<bar>"
    by (metis of_nat_less_iff of_nat_numeral of_nat_power not_le)
  then show ?thesis
    by (simp add: toDouble_def Let_def r)
qed

lemma location_20_add_email:
  "migrationLocationToMigration ''P2/20-add_email.js'' = m20"
  by (simp add: m20_def migrationLocationToMigration_def slice_def parseInt_def isWhiteSpace_def
      isRadixDigit_def digitValue_def toMathInt_def toDouble_small Let_def)

lemma location_10_create_users:
  "migrationLocationToMigration ''P1/10-create_users.js'' = m10"
  by (simp add: m10_def migrationLocationToMigration_def slice_def parseInt_def isWhiteSpace_def
      isRadixDigit_def digitValue_def toMathInt_def toDouble_small Let_def)

lemma location_30_add_index:
  "migrationLocationToMigration ''P1/30-add_index.js'' = m30"
  by (simp add: m30_def migrationLocationToMigration_def slice_def parseInt_def isWhiteSpace_def
      isRadixDigit_def digitValue_def toMathInt_def toDouble_small Let_def)

text \<open>
  Claim C6 as stated: reverting a descriptor whose name is not in the ledger raises
  a not-applied error to the caller. The code raises nothing: with only
  \<^verbatim>\<open>10-create_users\<close> recorded, reverting \<^verbatim>\<open>20-add_email\<close> returns normally.
\<close>

theorem revert_unrecorded_counterexample:
  "name (migrationLocationToMigration ''P2/20-add_email.js'') \<notin> set (ledger_rows (db world10)) \<and>
   \<not> isl (fst (revertMigration example_env ''P2/20-add_email.js'' world10))"
  by (simp add: revertMigration_def hasBeenRun_eq location_20_add_email m20_def world10_def
      example_env_def ledger_rows_def emit_def Let_def)

text \<open>
  Claim C6, amended. For an existing file whose name is not in the (existing)
  ledger, \<^verbatim>\<open>revertMigration\<close> prints ``Revert aborted because no migration with
  name=... found'' and resolves to \<^verbatim>\<open>undefined\<close>, raising nothing. The events of the
  call are the one \<^verbatim>\<open>select count\<close> of the guard and the printed line: no
  transaction is opened, the unit's \<^verbatim>\<open>down\<close> is not called, no row is deleted, and
  the database is unchanged.
\<close>

theorem revert_unrecorded_aborts:
  assumes "existsSync env loc"
    and "migrations_table (db w) = Some rows"
    and "name (migrationLocationToMigration loc) \<notin> set rows"
  shows "fst (revertMigration env loc w) = Inr Undefined \<and>
         new_events w (snd (revertMigration env loc w)) =
           [SelectCount (name (migrationLocationToMigration loc)),
            Log (RevertAbortedNoRow (name (migrationLocationToMigration loc)))] \<and>
         db (snd (revertMigration env loc w)) = db w"
  using assms
  by (simp add: revertMigration_def hasBeenRun_eq emit_def emits_def new_events_def Let_def)

theorem revert_unrecorded_aborts_witness:
  "existsSync example_env ''P2/20-add_email.js'' \<and>
   migrations_table (db world10) = Some [''10-create_users''] \<and>
   name (migrationLocationToMigration ''P2/20-add_email.js'') \<notin> set [''10-create_users''] \<and>
   fst (revertMigration example_env ''P2/20-add_email.js'' world10) = Inr Undefined \<and>
   new_events world10 (snd (revertMigration example_env ''P2/20-add_email.js'' world10)) =
     [SelectCount ''20-add_email'', Log (RevertAbortedNoRow ''20-add_email'')] \<and>
   db (snd (revertMigration example_env ''P2/20-add_email.js'' world10)) = db world10"
proof -
  have n: "name (migrationLocationToMigration ''P2/20-add_email.js'') = ''20-add_email''"
    by (simp add: location_20_add_email m20_def)
  have e: "existsSync example_env ''P2/20-add_email.js''"
    by (simp add: example_env_def)
  have t: "migrations_table (db world10) = Some [''10-create_users'']"
    by (simp add: world10_def)
  have r: "name (migrationLocationToMigration ''P2/20-add_email.js'') \<notin> set [''10-create_users'']"
    by (simp add: n)
  show ?thesis
    using revert_unrecorded_aborts [OF e t r] e t r by (simp add: n)
qed

subsection \<open>The batch loop\<close>

lemma emits_emits [simp]: "emits bs (emits as w) = emits (as @ bs) w"
  by (simp add: emits_def)

lemma emits_Nil [simp]: "emits [] w = w"
  by (simp add: emits_def)

lemma new_events_append: "trace w' = trace w @ tr \<Longrightarrow> new_events w w' = tr"
  by (simp add: new_events_def)

lemma started_append [simp]: "started (a @ b) = started a @ started b"
  by (induction a rule: started.induct) simp_all

lemma ups_called_append [simp]: "ups_called (a @ b) = ups_called a @ ups_called b"
  by (induction a rule: ups_called.induct) simp_all

lemma count_commits_append [simp]: "count_commits (a @ b) = count_commits a + count_commits b"
  by (simp add: count_commits_def)

lemma count_commits_Nil [simp]: "count_commits [] = 0"
  by (simp add: count_commits_def)

lemma count_commits_Cons [simp]: "count_commits (e # tr) = (if e = Commit then 1 else 0) + count_commits tr"
  by (simp add: count_commits_def)

lemma started_SelectCounts [simp]: "started (map (\<lambda>x. SelectCount (f x)) xs) = []"
  by (induction xs) simp_all

lemma ups_called_SelectCounts [simp]: "ups_called (map (\<lambda>x. SelectCount (f x)) xs) = []"
  by (induction xs) simp_all

lemma count_commits_SelectCounts [simp]: "count_commits (map (\<lambda>x. SelectCount (f x)) xs) = 0"
  by (induction xs) simp_all

declare applyAllLoop.simps(2) [simp del]

lemma applyAllLoop_Cons:
  "applyAllLoop env (m # ms) n w =
     (case migrations_table (db w) of
        None \<Rightarrow> (Inl UndefinedTable, emits [SelectCount (name m)] w)
      | Some rows \<Rightarrow>
          if name m \<in> set rows then applyAllLoop env ms n (emits [SelectCount (name m)] w)
          else (case underscore_applyMigration env m (emits [SelectCount (name m)] w) of
                  (Inl e, w2) \<Rightarrow> (Inl e, w2)
                | (Inr applied, w2) \<Rightarrow>
                    applyAllLoop env ms (if applied then n + 1 else n) w2))"
  by (simp add: applyAllLoop.simps(2) hasBeenRun_eq split: option.splits)

text \<open>What one apply adds to the trace.\<close>

lemma underscore_applyMigration_trace:
  assumes "underscore_applyMigration env m w = (r, w')"
  shows "\<exists>tr. trace w' = trace w @ tr \<and> started tr = [name m] \<and>
           count_commits tr = (if isl r then 0 else 1) \<and> filter is_report tr = [] \<and>
           (\<forall>l \<in> set (ups_called tr). l = location m) \<and> (\<forall>b. r = Inr b \<longrightarrow> b)"
  using assms
  by (auto simp: underscore_applyMigration_eq split: option.splits sum.splits if_splits prod.splits)



lemma applyAllLoop_trace:
  assumes "applyAllLoop env xs n w = (r, w')"
  shows "\<exists>tr. trace w' = trace w @ tr \<and> filter is_report tr = [] \<and>
           (\<forall>n'. r = Inr n' \<longrightarrow> n' = n + count_commits tr) \<and>
           (\<exists>ys. subseq ys xs \<and> started tr = map name ys \<and> set (ups_called tr) \<subseteq> location ` set ys)"
  using assms
proof (induction xs arbitrary: n w)
  case Nil
  then show ?case by auto
next
  case (Cons m ms)
  show ?case
  proof (cases "migrations_table (db w)")
    case None
    with Cons.prems show ?thesis
      by (intro exI [of _ "[SelectCount (name m)]"]) (auto simp: applyAllLoop_Cons intro!: exI [of _ "[]"])
  next
    case (Some rows)
    show ?thesis
    proof (cases "name m \<in> set rows")
      case True
      with Some Cons.prems have "applyAllLoop env ms n (emits [SelectCount (name m)] w) = (r, w')"
        by (simp add: applyAllLoop_Cons)
      from Cons.IH [OF this] obtain tr ys where
        "trace w' = trace w @ SelectCount (name m) # tr" "filter is_report tr = []"
        "\<forall>n'. r = Inr n' \<longrightarrow> n' = n + count_commits tr"
        "subseq ys ms" "started tr = map name ys" "set (ups_called tr) \<subseteq> location ` set ys"
        by auto
      then show ?thesis
        by (intro exI [of _ "SelectCount (name m) # tr"]) (auto intro!: exI [of _ ys])
    next
      case False
      obtain r1 w1 where a: "underscore_applyMigration env m (emits [SelectCount (name m)] w) = (r1, w1)"
        by (cases "underscore_applyMigration env m (emits [SelectCount (name m)] w)")
      from underscore_applyMigration_trace [OF a] obtain t1 where
        t1: "trace w1 = trace w @ SelectCount (name m) # t1" "started t1 = [name m]"
          "count_commits t1 = (if isl r1 then 0 else 1)" "filter is_report t1 = []"
          "\<forall>l \<in> set (ups_called t1). l = location m" "\<forall>b. r1 = Inr b \<longrightarrow> b"
        by auto
      show ?thesis
      proof (cases r1)
        case (Inl e)
        with a Some False Cons.prems have "r = Inl e" "w' = w1"
          by (simp_all add: applyAllLoop_Cons)
        with t1 show ?thesis
          by (intro exI [of _ "SelectCount (name m) # t1"]) (auto intro!: exI [of _ "[m]"])
      next
        case (Inr b)
        with t1 have b by simp
        with Inr a Some False Cons.prems have "applyAllLoop env ms (n + 1) w1 = (r, w')"
          by (simp add: applyAllLoop_Cons)
        from Cons.IH [OF this] obtain tr ys where
          "trace w' = trace w1 @ tr" "filter is_report tr = []"
          "\<forall>n'. r = Inr n' \<longrightarrow> n' = n + 1 + count_commits tr"
          "subseq ys ms" "started tr = map name ys" "set (ups_called tr) \<subseteq> location ` set ys"
          by auto
        with t1 Inr show ?thesis
          by (intro exI [of _ "SelectCount (name m) # t1 @ tr"]) (auto intro!: exI [of _ "m # ys"])
      qed
    qed
  qed
qed

lemma createMigrationTable_eq:
  "createMigrationTable w =
     (case migrations_table (db w) of
        Some rows \<Rightarrow> (Inr (), emits [SelectTableExists] w)
      | None \<Rightarrow> (Inr (), (emits [SelectTableExists, CreateTable] w)\<lparr>db := (db w)\<lparr>migrations_table := Some []\<rparr>\<rparr>))"
  by (simp add: createMigrationTable_def emit_def emits_def Let_def split: option.splits)

lemma createMigrationTable_facts:
  "\<exists>tr rows. fst (createMigrationTable w) = Inr () \<and> trace (snd (createMigrationTable w)) = trace w @ tr \<and>
     count_commits tr = 0 \<and> started tr = [] \<and> ups_called tr = [] \<and> filter is_report tr = [] \<and>
     migrations_table (db (snd (createMigrationTable w))) = Some rows \<and> rows = ledger_rows (db w) \<and>
     schema (db (snd (createMigrationTable w))) = schema (db w)"
  by (auto simp: createMigrationTable_eq ledger_rows_def split: option.splits)

text \<open>The example installation, applied from an empty database.\<close>

lemma sorted_10_30_20: "array_sort env [m10, m30, m20] = [m10, m20, m30]"
  by (simp add: array_sort_def js_sort_def compareOrder_def toDouble_small m10_def m20_def m30_def)

lemma example_found:
  "findAllLoop example_env [''P1'', ''P2''] [] = Inr [m10, m30, m20]"
  by (simp add: findMigrationsIn_def example_env_def example_files_def
      location_10_create_users location_20_add_email location_30_add_index)

lemma example_discovery:
  "findAllMigrations example_env [''P1'', ''P2''] = Inr [m10, m20, m30]"
  by (simp only: findAllMigrations_def example_found) (simp add: sorted_10_30_20)

lemma same_files:
  "findAllMigrations (env\<lparr>require := r\<rparr>) paths = findAllMigrations env paths"
proof -
  have "findAllLoop (env\<lparr>require := r\<rparr>) paths acc = findAllLoop env paths acc" for acc
    by (induction paths arbitrary: acc) (auto simp: findMigrationsIn_def split: sum.splits)
  moreover have "array_sort (env\<lparr>require := r\<rparr>) ms = array_sort env ms" for ms
    by (simp add: array_sort_def)
  ultimately show ?thesis
    by (simp add: findAllMigrations_def split: sum.splits)
qed


lemma meddling_discovery:
  "findAllMigrations meddling_env [''P1'', ''P2''] = Inr [m10, m20, m30]"
  by (simp add: meddling_env_def same_files example_discovery)


lemma example_run:
  "applyAllMigrations example_env [''P1'', ''P2''] empty_world =
     (Inr Undefined,
      \<lparr> db = \<lparr> schema = [''users'', ''email'', ''index''],
               migrations_table = Some [''10-create_users'', ''20-add_email'', ''30-add_index''] \<rparr>,
        trace =
          [SelectTableExists, CreateTable,
           SelectCount ''10-create_users'', Begin, Log (RunningMigration ''10-create_users''),
           CallUp ''P1/10-create_users.js'', InsertName ''10-create_users'', Commit,
           SelectCount ''20-add_email'', Begin, Log (RunningMigration ''20-add_email''),
           CallUp ''P2/20-add_email.js'', InsertName ''20-add_email'', Commit,
           SelectCount ''30-add_index'', Begin, Log (RunningMigration ''30-add_index''),
           CallUp ''P1/30-add_index.js'', InsertName ''30-add_index'', Commit,
           Log (AppliedCount 3)] \<rparr>)"
  by (simp only: applyAllMigrations_def example_discovery)
    (simp add: createMigrationTable_eq applyAllLoop_Cons
      underscore_applyMigration_eq emits_def emit_def empty_world_def
      m10_def m20_def m30_def example_env_def create_unit_def)

subsection \<open>C7: what a batch reports\<close>

text \<open>
  Claim C7 as stated: \<^verbatim>\<open>applyAllMigrations\<close> returns the count of the migrations it
  newly applied. The function has no \<^verbatim>\<open>return\<close> (its declaration is
  \<^verbatim>\<open>Promise<void>\<close>): at the example installation three applies commit and the
  call resolves to \<^verbatim>\<open>undefined\<close>, not to the number three.
\<close>

theorem applyAll_returns_count_counterexample:
  "count_commits (new_events empty_world (snd (applyAllMigrations example_env [''P1'', ''P2''] empty_world))) = 3 \<and>
   fst (applyAllMigrations example_env [''P1'', ''P2''] empty_world) \<noteq> Inr (Number 3) \<and>
   fst (applyAllMigrations example_env [''P1'', ''P2''] empty_world) = Inr Undefined"
  by (simp only: example_run) (simp add: new_events_def empty_world_def)

text \<open>
  Claim C7, amended. A call of \<^verbatim>\<open>applyAllMigrations\<close> that completes resolves to
  \<^verbatim>\<open>undefined\<close> and prints the count once: ``Applied n
  migrations'' where \<open>n\<close> is the number of transactions committed during the call, or
  ``No new migrations to apply'' when that number is zero. A call stopped by an
  error prints no count.
\<close>

theorem applyAll_reports_count:
  assumes "applyAllMigrations env paths w = (r, w')"
  shows "(\<not> isl r \<longrightarrow> r = Inr Undefined) \<and>
         filter is_report (new_events w w') =
           (if isl r then []
            else [Log (if count_commits (new_events w w') = 0 then NoNewMigrations
                       else AppliedCount (count_commits (new_events w w')))])"
proof -
  obtain w0 where c: "createMigrationTable w = (Inr (), w0)"
    using createMigrationTable_facts [of w] by (cases "createMigrationTable w") auto
  from createMigrationTable_facts [of w] c obtain t0 where
    t0: "trace w0 = trace w @ t0" "count_commits t0 = 0" "filter is_report t0 = []"
    by auto
  show ?thesis
  proof (cases "findAllMigrations env paths")
    case (Inl e)
    with c assms have "r = Inl e" "w' = w0"
      by (simp_all add: applyAllMigrations_def)
    with t0 show ?thesis by (simp add: new_events_append)
  next
    case (Inr ms)
    obtain r1 w1 where l: "applyAllLoop env ms 0 w0 = (r1, w1)"
      by (cases "applyAllLoop env ms 0 w0")
    from applyAllLoop_trace [OF l] obtain t1 where
      t1: "trace w1 = trace w0 @ t1" "filter is_report t1 = []"
        "\<forall>n'. r1 = Inr n' \<longrightarrow> n' = count_commits t1"
      by auto
    show ?thesis
    proof (cases r1)
      case (Inl e)
      with c Inr l assms have "r = Inl e" "w' = w1"
        by (simp_all add: applyAllMigrations_def)
      with t0 t1 show ?thesis by (simp add: new_events_append)
    next
      case r1: (Inr k)
      with t1 have k: "k = count_commits t1" by simp
      from c Inr l r1 assms have r: "r = Inr Undefined"
        and w': "w' = emit (Log (if k \<noteq> 0 then AppliedCount k else NoNewMigrations)) w1"
        by (auto simp: applyAllMigrations_def split: if_splits)
      from w' t0 t1 have "trace w' = trace w @ t0 @ t1 @ [Log (if k \<noteq> 0 then AppliedCount k else NoNewMigrations)]"
        by (simp add: emit_def)
      then have "new_events w w' = t0 @ t1 @ [Log (if k \<noteq> 0 then AppliedCount k else NoNewMigrations)]"
        by (rule new_events_append)
      with r t0 t1 k show ?thesis by simp
    qed
  qed
qed

theorem applyAll_reports_count_witness:
  "filter is_report (new_events empty_world (snd (applyAllMigrations example_env [''P1'', ''P2''] empty_world))) =
     [Log (AppliedCount 3)] \<and>
   count_commits (new_events empty_world (snd (applyAllMigrations example_env [''P1'', ''P2''] empty_world))) = 3"
  using applyAll_reports_count [of example_env "[''P1'', ''P2'']" empty_world
     "fst (applyAllMigrations example_env [''P1'', ''P2''] empty_world)"
     "snd (applyAllMigrations example_env [''P1'', ''P2''] empty_world)"]
  by (simp only: example_run) (simp add: new_events_def empty_world_def)

subsection \<open>The ledger across a batch\<close>

text \<open>Most facts of this subsection are about installations whose units leave the
  table \<^verbatim>\<open>migrations\<close> alone (\<open>units_keep_ledger\<close>).\<close>

lemma underscore_applyMigration_rollback:
  "underscore_applyMigration env m w = (Inl e, w') \<Longrightarrow> db w' = db w"
  by (auto simp: underscore_applyMigration_eq split: option.splits sum.splits if_splits prod.splits)


lemma underscore_applyMigration_ledger:
  assumes "units_keep_ledger env" and "migrations_table (db w) = Some rows"
    and "underscore_applyMigration env m w = (r, w')"
  shows "migrations_table (db w') = Some (if isl r then rows else rows @ [name m])"
proof (cases r)
  case (Inl e)
  with assms show ?thesis
    by (simp add: underscore_applyMigration_rollback)
next
  case (Inr b)
  with assms(3) obtain code d rows' where
    c: "require env (location m) = Some code" "up code (db w) = (Inr (), d)"
      "migrations_table d = Some rows'" "db w' = d\<lparr>migrations_table := Some (rows' @ [name m])\<rparr>"
    by (auto simp: underscore_applyMigration_eq split: option.splits sum.splits if_splits prod.splits)
  from assms(1) c(1,2) have "migrations_table d = migrations_table (db w)"
    unfolding units_keep_ledger_def by blast
  with c assms(2) Inr show ?thesis by simp
qed

lemma applyAllLoop_ledger:
  assumes "units_keep_ledger env" and "migrations_table (db w) = Some rows"
    and "applyAllLoop env xs n w = (r, w')"
  shows "\<exists>added. migrations_table (db w') = Some (rows @ added) \<and> set added \<subseteq> name ` set xs \<and>
           (\<not> isl r \<longrightarrow> name ` set xs \<subseteq> set (rows @ added))"
  using assms(2,3)
proof (induction xs arbitrary: n w rows)
  case Nil
  then show ?case by simp
next
  case (Cons m ms)
  show ?case
  proof (cases "name m \<in> set rows")
    case True
    with Cons.prems have "applyAllLoop env ms n (emits [SelectCount (name m)] w) = (r, w')"
      by (simp add: applyAllLoop_Cons)
    from Cons.IH [OF _ this, of rows] Cons.prems(1) True show ?thesis
      by auto
  next
    case False
    obtain r1 w1 where a: "underscore_applyMigration env m (emits [SelectCount (name m)] w) = (r1, w1)"
      by (cases "underscore_applyMigration env m (emits [SelectCount (name m)] w)")
    from underscore_applyMigration_ledger [OF assms(1) _ a, of rows] Cons.prems(1)
    have l1: "migrations_table (db w1) = Some (if isl r1 then rows else rows @ [name m])"
      by simp
    show ?thesis
    proof (cases r1)
      case (Inl e)
      with a False Cons.prems have "r = Inl e" "w' = w1"
        by (simp_all add: applyAllLoop_Cons)
      with l1 Inl show ?thesis by simp
    next
      case (Inr b)
      with a False Cons.prems obtain n1 where "applyAllLoop env ms n1 w1 = (r, w')"
        by (auto simp: applyAllLoop_Cons)
      from Cons.IH [OF _ this, of "rows @ [name m]"] l1 Inr obtain added where
        "migrations_table (db w') = Some (rows @ [name m] @ added)" "set added \<subseteq> name ` set ms"
        "\<not> isl r \<longrightarrow> name ` set ms \<subseteq> set (rows @ [name m] @ added)"
        by auto
      then show ?thesis
        by (intro exI [of _ "name m # added"]) auto
    qed
  qed
qed


lemma create_unit_keeps_ledger:
  "(up (create_unit t) d = (Inr (), d') \<longrightarrow> migrations_table d' = migrations_table d) \<and>
   (down (create_unit t) d = (Inr (), d') \<longrightarrow> migrations_table d' = migrations_table d)"
  by (auto simp: create_unit_def)


lemma example_env_units:
  "require example_env loc = Some code \<Longrightarrow> \<exists>t. code = create_unit t"
  by (auto simp: example_env_def split: if_splits)


lemma example_env_keeps_ledger: "units_keep_ledger example_env"
  unfolding units_keep_ledger_def
  using example_env_units create_unit_keeps_ledger by blast


text \<open>The guard asks for every descriptor in turn, until the loop is left.\<close>

lemma guarded_append [simp]: "guarded (a @ b) = guarded a @ guarded b"
  by (induction a rule: guarded.induct) simp_all

lemma deletes_append [simp]: "deletes (a @ b) = deletes a @ deletes b"
  by (induction a rule: deletes.induct) simp_all

lemma underscore_applyMigration_statements:
  assumes "underscore_applyMigration env m w = (r, w')"
  shows "\<exists>tr. trace w' = trace w @ tr \<and> guarded tr = [] \<and> deletes tr = []"
  using assms
  by (auto simp: underscore_applyMigration_eq split: option.splits sum.splits if_splits prod.splits)

lemma applyAllLoop_statements:
  assumes "applyAllLoop env xs n w = (r, w')"
  shows "\<exists>tr. trace w' = trace w @ tr \<and> deletes tr = [] \<and>
           prefix (guarded tr) (map name xs) \<and> (\<not> isl r \<longrightarrow> guarded tr = map name xs)"
  using assms
proof (induction xs arbitrary: n w)
  case Nil
  then show ?case by auto
next
  case (Cons m ms)
  show ?case
  proof (cases "migrations_table (db w)")
    case None
    with Cons.prems show ?thesis
      by (intro exI [of _ "[SelectCount (name m)]"]) (auto simp: applyAllLoop_Cons)
  next
    case (Some rows)
    show ?thesis
    proof (cases "name m \<in> set rows")
      case True
      with Some Cons.prems have "applyAllLoop env ms n (emits [SelectCount (name m)] w) = (r, w')"
        by (simp add: applyAllLoop_Cons)
      from Cons.IH [OF this] obtain tr where
        "trace w' = trace w @ SelectCount (name m) # tr" "deletes tr = []"
        "prefix (guarded tr) (map name ms)" "\<not> isl r \<longrightarrow> guarded tr = map name ms"
        by auto
      then show ?thesis
        by (intro exI [of _ "SelectCount (name m) # tr"]) simp
    next
      case False
      obtain r1 w1 where
        a: "underscore_applyMigration env m (emits [SelectCount (name m)] w) = (r1, w1)"
        by (cases "underscore_applyMigration env m (emits [SelectCount (name m)] w)")
      from underscore_applyMigration_statements [OF a] obtain t1 where
        t1: "trace w1 = trace w @ SelectCount (name m) # t1" "guarded t1 = []" "deletes t1 = []"
        by auto
      show ?thesis
      proof (cases r1)
        case (Inl e)
        with a Some False Cons.prems have "r = Inl e" "w' = w1"
          by (simp_all add: applyAllLoop_Cons)
        with t1 show ?thesis
          by (intro exI [of _ "SelectCount (name m) # t1"]) simp
      next
        case (Inr b)
        with a Some False Cons.prems obtain n1 where "applyAllLoop env ms n1 w1 = (r, w')"
          by (auto simp: applyAllLoop_Cons)
        from Cons.IH [OF this] obtain tr where
          "trace w' = trace w1 @ tr" "deletes tr = []"
          "prefix (guarded tr) (map name ms)" "\<not> isl r \<longrightarrow> guarded tr = map name ms"
          by auto
        with t1 show ?thesis
          by (intro exI [of _ "SelectCount (name m) # t1 @ tr"]) simp
      qed
    qed
  qed
qed

text \<open>With units that leave the ledger alone and descriptors of distinct names, the
  applies entered are for the descriptors not yet recorded, in their order, up to
  the first that fails.\<close>

lemma applyAllLoop_entered:
  assumes "units_keep_ledger env" and "migrations_table (db w) = Some rows"
    and "distinct (map name xs)" and "applyAllLoop env xs n w = (r, w')"
  shows "\<exists>tr. trace w' = trace w @ tr \<and>
           prefix (started tr) (map name (filter (\<lambda>m. name m \<notin> set rows) xs)) \<and>
           (\<not> isl r \<longrightarrow> started tr = map name (filter (\<lambda>m. name m \<notin> set rows) xs)) \<and>
           (isl r \<longrightarrow> started tr \<noteq> [])"
  using assms(2,3,4)
proof (induction xs arbitrary: n w rows)
  case Nil
  then show ?case by auto
next
  case (Cons m ms)
  show ?case
  proof (cases "name m \<in> set rows")
    case True
    with Cons.prems have "applyAllLoop env ms n (emits [SelectCount (name m)] w) = (r, w')"
      by (simp add: applyAllLoop_Cons)
    from Cons.IH [OF _ _ this, of rows] Cons.prems(1,2) obtain tr where
      "trace w' = trace w @ SelectCount (name m) # tr"
      "prefix (started tr) (map name (filter (\<lambda>m. name m \<notin> set rows) ms))"
      "\<not> isl r \<longrightarrow> started tr = map name (filter (\<lambda>m. name m \<notin> set rows) ms)"
      "isl r \<longrightarrow> started tr \<noteq> []"
      by auto
    with True show ?thesis
      by (intro exI [of _ "SelectCount (name m) # tr"]) simp
  next
    case False
    obtain r1 w1 where
      a: "underscore_applyMigration env m (emits [SelectCount (name m)] w) = (r1, w1)"
      by (cases "underscore_applyMigration env m (emits [SelectCount (name m)] w)")
    from underscore_applyMigration_trace [OF a] obtain t1 where
      t1: "trace w1 = trace w @ SelectCount (name m) # t1" "started t1 = [name m]"
      by auto
    from underscore_applyMigration_ledger [OF assms(1) _ a, of rows] Cons.prems(1)
    have l1: "migrations_table (db w1) = Some (if isl r1 then rows else rows @ [name m])"
      by simp
    show ?thesis
    proof (cases r1)
      case (Inl e)
      with a False Cons.prems have "r = Inl e" "w' = w1"
        by (simp_all add: applyAllLoop_Cons)
      with t1 False show ?thesis
        by (intro exI [of _ "SelectCount (name m) # t1"]) simp
    next
      case (Inr b)
      with a False Cons.prems obtain n1 where 1: "applyAllLoop env ms n1 w1 = (r, w')"
        by (auto simp: applyAllLoop_Cons)
      from l1 Inr have l2: "migrations_table (db w1) = Some (rows @ [name m])" by simp
      from Cons.prems(2) have d: "distinct (map name ms)" and nm: "name m \<notin> name ` set ms"
        by simp_all
      from nm have f: "filter (\<lambda>x. name x \<notin> set (rows @ [name m])) ms =
          filter (\<lambda>x. name x \<notin> set rows) ms"
        by (intro filter_cong) (auto simp: image_iff)
      from Cons.IH [OF l2 d 1] f obtain tr where
        "trace w' = trace w1 @ tr"
        "prefix (started tr) (map name (filter (\<lambda>m. name m \<notin> set rows) ms))"
        "\<not> isl r \<longrightarrow> started tr = map name (filter (\<lambda>m. name m \<notin> set rows) ms)"
        by auto
      with t1 False show ?thesis
        by (intro exI [of _ "SelectCount (name m) # t1 @ tr"]) simp
    qed
  qed
qed

subsection \<open>C2: a batch stops at the first error and can be resumed\<close>






subsection \<open>C4: a second batch applies nothing\<close>








subsection \<open>C9: who adds and who removes ledger rows\<close>

lemma revertMigration_eq:
  "revertMigration env loc w =
     (let m = migrationLocationToMigration loc in
      if \<not> existsSync env loc then (Inr Undefined, emits [Log (RevertAbortedNotFound loc)] w)
      else case migrations_table (db w) of
        None \<Rightarrow> (Inl UndefinedTable, emits [SelectCount (name m)] w)
      | Some rows \<Rightarrow>
          if name m \<notin> set rows
          then (Inr Undefined, emits [SelectCount (name m), Log (RevertAbortedNoRow (name m))] w)
          else (case require env loc of
             None \<Rightarrow> (Inl (CannotFindModule loc),
                emits [SelectCount (name m), Begin, Log (RevertingMigration loc), Rollback] w)
           | Some code \<Rightarrow>
              (case down code (db w) of
                 (Inl e, d) \<Rightarrow> (Inl e,
                   emits [SelectCount (name m), Begin, Log (RevertingMigration loc), CallDown loc, Rollback] w)
               | (Inr u, d) \<Rightarrow>
                  (case migrations_table d of
                     None \<Rightarrow> (Inl UndefinedTable,
                       emits [SelectCount (name m), Begin, Log (RevertingMigration loc), CallDown loc,
                              DeleteName (name m), Rollback] w)
                   | Some rows' \<Rightarrow> (Inr Undefined,
                       (emits [SelectCount (name m), Begin, Log (RevertingMigration loc), CallDown loc,
                               DeleteName (name m), Commit] w)
                         \<lparr>db := d\<lparr>migrations_table := Some (filter (\<lambda>r. r \<noteq> name m) rows')\<rparr>\<rparr>)))))"
proof -
  have loc: "location (migrationLocationToMigration loc) = loc"
    by (simp add: migrationLocationToMigration_def Let_def)
  show ?thesis
    by (simp add: revertMigration_def hasBeenRun_eq begin_transaction_def delete_migration_def
        emit_def emits_def Let_def loc split: option.splits sum.splits prod.splits)
qed

lemma revertMigration_ledger:
  assumes "units_keep_ledger env"
  shows "ledger_rows (db (snd (revertMigration env loc w))) =
           (if Commit \<in> set (new_events w (snd (revertMigration env loc w)))
            then filter (\<lambda>r. r \<noteq> name (migrationLocationToMigration loc)) (ledger_rows (db w))
            else ledger_rows (db w))"
proof (cases "require env loc")
  case None
  then show ?thesis
    by (simp add: revertMigration_eq Let_def ledger_rows_def split: option.splits)
next
  case (Some code)
  show ?thesis
  proof (cases "down code (db w)")
    case (Pair res d)
    show ?thesis
    proof (cases res)
      case (Inl e)
      with Some Pair show ?thesis
        by (simp add: revertMigration_eq Let_def ledger_rows_def split: option.splits)
    next
      case (Inr u)
      with assms Some Pair have "migrations_table d = migrations_table (db w)"
        unfolding units_keep_ledger_def by (cases u) blast
      with Some Pair Inr show ?thesis
        by (simp add: revertMigration_eq Let_def ledger_rows_def split: option.splits)
    qed
  qed
qed

lemma applyMigration_ledger:
  assumes "units_keep_ledger env"
  shows "prefix (ledger_rows (db w)) (ledger_rows (db (snd (applyMigration env loc w))))"
proof (cases "migrations_table (db w)")
  case None
  then show ?thesis by (simp add: ledger_rows_def)
next
  case (Some rows)
  define m where "m = migrationLocationToMigration loc"
  obtain r w' where a: "underscore_applyMigration env m (emits [SelectCount (name m)] w) = (r, w')"
    by (cases "underscore_applyMigration env m (emits [SelectCount (name m)] w)")
  from underscore_applyMigration_ledger [OF assms _ a, of rows] Some
  have "migrations_table (db w') = Some (if isl r then rows else rows @ [name m])"
    by simp
  with Some a show ?thesis
    by (cases r) (simp_all add: applyMigration_def hasBeenRun_eq Let_def ledger_rows_def emit_def
        flip: m_def)
qed

lemma applyAllMigrations_ledger:
  assumes "units_keep_ledger env"
  shows "prefix (ledger_rows (db w)) (ledger_rows (db (snd (applyAllMigrations env paths w))))"
proof -
  obtain w0 where c: "createMigrationTable w = (Inr (), w0)"
    and t0: "migrations_table (db w0) = Some (ledger_rows (db w))"
    using createMigrationTable_facts [of w] by (cases "createMigrationTable w") auto
  show ?thesis
  proof (cases "findAllMigrations env paths")
    case (Inl e)
    with c t0 show ?thesis
      by (simp add: applyAllMigrations_def ledger_rows_def)
  next
    case (Inr ms)
    obtain rl wl where l: "applyAllLoop env ms 0 w0 = (rl, wl)"
      by (cases "applyAllLoop env ms 0 w0")
    from applyAllLoop_ledger [OF assms t0 l] obtain added where
      "migrations_table (db wl) = Some (ledger_rows (db w) @ added)"
      by auto
    then have "prefix (ledger_rows (db w)) (ledger_rows (db wl))"
      by (simp add: ledger_rows_def)
    with c Inr l show ?thesis
      by (cases rl) (simp_all add: applyAllMigrations_def emit_def)
  qed
qed

lemma applyMigration_deletes: "deletes (new_events w (snd (applyMigration env loc w))) = []"
  by (simp add: applyMigration_def hasBeenRun_eq underscore_applyMigration_eq emit_def emits_def
      new_events_def Let_def split: option.splits sum.splits prod.splits)

lemma revertMigration_deletes:
  "set (deletes (new_events w (snd (revertMigration env loc w)))) \<subseteq>
     {name (migrationLocationToMigration loc)}"
  by (simp add: revertMigration_eq emits_def new_events_def Let_def
      split: option.splits sum.splits prod.splits)

lemma applyAllMigrations_deletes:
  "deletes (new_events w (snd (applyAllMigrations env paths w))) = []"
proof -
  obtain w0 t0 where c: "createMigrationTable w = (Inr (), w0)"
    and t0: "trace w0 = trace w @ t0" "deletes t0 = []"
    by (cases "migrations_table (db w)") (auto simp: createMigrationTable_eq)
  show ?thesis
  proof (cases "findAllMigrations env paths")
    case (Inl e)
    with c t0 show ?thesis
      by (simp add: applyAllMigrations_def new_events_def)
  next
    case (Inr ms)
    obtain rl wl where l: "applyAllLoop env ms 0 w0 = (rl, wl)"
      by (cases "applyAllLoop env ms 0 w0")
    from applyAllLoop_statements [OF l] obtain tr where
      tr: "trace wl = trace w0 @ tr" "deletes tr = []"
      by auto
    have "\<exists>last. trace (snd (applyAllMigrations env paths w)) = trace wl @ last \<and> deletes last = []"
      using c Inr l by (cases rl) (auto simp: applyAllMigrations_def emit_def)
    with t0 tr show ?thesis
      by (auto simp: new_events_def)
  qed
qed

lemma meddling_run_from_10:
  "applyAllMigrations meddling_env [''P1'', ''P2''] world10 =
     (Inr Undefined,
      \<lparr> db = \<lparr> schema = [''users'', ''email'', ''index''],
               migrations_table = Some [''20-add_email'', ''30-add_index''] \<rparr>,
        trace =
          [SelectTableExists, SelectCount ''10-create_users'',
           SelectCount ''20-add_email'', Begin, Log (RunningMigration ''20-add_email''),
           CallUp ''P2/20-add_email.js'', InsertName ''20-add_email'', Commit,
           SelectCount ''30-add_index'', Begin, Log (RunningMigration ''30-add_index''),
           CallUp ''P1/30-add_index.js'', InsertName ''30-add_index'', Commit,
           Log (AppliedCount 2)] \<rparr>)"
  by (simp only: applyAllMigrations_def meddling_discovery)
    (simp add: createMigrationTable_eq applyAllLoop_Cons underscore_applyMigration_eq emits_def
      emit_def world10_def m10_def m20_def m30_def meddling_env_def
      example_env_def create_unit_def meddling_unit_def)

lemma example_revert_10:
  "revertMigration example_env ''P1/10-create_users.js'' world10 =
     (Inr Undefined,
      \<lparr> db = \<lparr> schema = [], migrations_table = Some [] \<rparr>,
        trace = [SelectCount ''10-create_users'', Begin,
                 Log (RevertingMigration ''P1/10-create_users.js''),
                 CallDown ''P1/10-create_users.js'', DeleteName ''10-create_users'', Commit] \<rparr>)"
  by (simp only: revertMigration_eq location_10_create_users Let_def)
    (simp add: m10_def world10_def example_env_def create_unit_def emits_def)

text \<open>
  Claim C9 as stated, across any run of the apply operations: the set of recorded
  names only grows. A unit is handed the transaction's handle and can delete from
  the ledger itself: where the \<^verbatim>\<open>up\<close> of \<^verbatim>\<open>20-add_email\<close> deletes the row of
  \<^verbatim>\<open>10-create_users\<close>, a batch that starts with that row recorded ends without it.
\<close>

theorem ledger_grows_counterexample:
  "ledger_rows (db world10) = [''10-create_users''] \<and>
   fst (applyAllMigrations meddling_env [''P1'', ''P2''] world10) = Inr Undefined \<and>
   ledger_rows (db (snd (applyAllMigrations meddling_env [''P1'', ''P2''] world10))) =
     [''20-add_email'', ''30-add_index''] \<and>
   \<not> set (ledger_rows (db world10)) \<subseteq>
       set (ledger_rows (db (snd (applyAllMigrations meddling_env [''P1'', ''P2''] world10))))"
  by (simp only: meddling_run_from_10 snd_conv fst_conv)
    (simp add: ledger_rows_def world10_def)

text \<open>
  Claim C9, amended. The program itself sends no \<^verbatim>\<open>delete\<close> during
  \<^verbatim>\<open>applyMigration\<close> or \<^verbatim>\<open>applyAllMigrations\<close>, and \<^verbatim>\<open>revertMigration\<close> sends none but
  the one that names the reverted descriptor. Provided the units do not themselves
  write the table \<^verbatim>\<open>migrations\<close>: across \<^verbatim>\<open>applyMigration\<close> and across
  \<^verbatim>\<open>applyAllMigrations\<close> the rows of the ledger before the call are a prefix of the
  rows after it (rows are added at the end and none is removed), and
  \<^verbatim>\<open>revertMigration\<close> removes rows only when its transaction commits, and then exactly
  the rows whose name is the name derived from the reverted location; otherwise it
  leaves the ledger as it was.
\<close>

theorem ledger_grows_except_revert:
  "deletes (new_events w (snd (applyMigration env loc w))) = [] \<and>
   deletes (new_events w (snd (applyAllMigrations env paths w))) = [] \<and>
   set (deletes (new_events w (snd (revertMigration env loc w)))) \<subseteq>
     {name (migrationLocationToMigration loc)} \<and>
   (units_keep_ledger env \<longrightarrow>
      prefix (ledger_rows (db w)) (ledger_rows (db (snd (applyMigration env loc w)))) \<and>
      prefix (ledger_rows (db w)) (ledger_rows (db (snd (applyAllMigrations env paths w)))) \<and>
      ledger_rows (db (snd (revertMigration env loc w))) =
        (if Commit \<in> set (new_events w (snd (revertMigration env loc w)))
         then filter (\<lambda>r. r \<noteq> name (migrationLocationToMigration loc)) (ledger_rows (db w))
         else ledger_rows (db w)))"
  using applyMigration_ledger [of env w loc] applyAllMigrations_ledger [of env w paths]
    revertMigration_ledger [of env loc w] applyMigration_deletes [of w env loc]
    applyAllMigrations_deletes [of w env paths] revertMigration_deletes [of w env loc]
  by blast

theorem ledger_grows_except_revert_witness:
  "units_keep_ledger example_env \<and>
   ledger_rows (db world10) = [''10-create_users''] \<and>
   ledger_rows (db (snd (applyAllMigrations example_env [''P1'', ''P2''] empty_world))) =
     [''10-create_users'', ''20-add_email'', ''30-add_index''] \<and>
   prefix (ledger_rows (db empty_world))
     (ledger_rows (db (snd (applyAllMigrations example_env [''P1'', ''P2''] empty_world)))) \<and>
   deletes (new_events world10 (snd (revertMigration example_env ''P1/10-create_users.js'' world10))) =
     [''10-create_users''] \<and>
   ledger_rows (db (snd (revertMigration example_env ''P1/10-create_users.js'' world10))) = []"
proof -
  have k: "units_keep_ledger example_env"
    by (rule example_env_keeps_ledger)
  have c: "Commit \<in> set (new_events world10
      (snd (revertMigration example_env ''P1/10-create_users.js'' world10)))"
    and d: "deletes (new_events world10
        (snd (revertMigration example_env ''P1/10-create_users.js'' world10))) = [''10-create_users'']"
    by (simp_all only: example_revert_10 snd_conv) (simp_all add: new_events_def world10_def)
  have l: "ledger_rows (db world10) = [''10-create_users'']"
    by (simp add: world10_def ledger_rows_def)
  have n: "name (migrationLocationToMigration ''P1/10-create_users.js'') = ''10-create_users''"
    by (simp add: location_10_create_users m10_def)
  from ledger_grows_except_revert [of empty_world example_env
        "''P1/10-create_users.js''" "[''P1'', ''P2'']"] k
  have 1: "prefix (ledger_rows (db empty_world))
     (ledger_rows (db (snd (applyAllMigrations example_env [''P1'', ''P2''] empty_world))))"
    by blast
  from ledger_grows_except_revert [of world10 example_env
        "''P1/10-create_users.js''" "[''P1'', ''P2'']"] k c
  have "ledger_rows (db (snd (revertMigration example_env ''P1/10-create_users.js'' world10))) =
      filter (\<lambda>r. r \<noteq> name (migrationLocationToMigration ''P1/10-create_users.js''))
        (ledger_rows (db world10))"
    by presburger
  then have 2: "ledger_rows (db (snd (revertMigration example_env ''P1/10-create_users.js'' world10))) = []"
    by (simp add: n l)
  have 3: "ledger_rows (db (snd (applyAllMigrations example_env [''P1'', ''P2''] empty_world))) =
     [''10-create_users'', ''20-add_email'', ''30-add_index'']"
    by (simp only: example_run snd_conv) (simp add: ledger_rows_def)
  from k l 1 2 3 d show ?thesis by blast
qed

subsection \<open>Sorting by order key\<close>

lemma subseq_subset: "subseq ys xs \<Longrightarrow> set ys \<subseteq> set xs"
  by (induction ys xs rule: list_emb.induct) auto

lemma sorted_wrt_subseq:
  "subseq ys xs \<Longrightarrow> sorted_wrt P xs \<Longrightarrow> sorted_wrt P ys"
proof (induction ys xs rule: list_emb.induct)
  case (list_emb_Nil ys)
  then show ?case by simp
next
  case (list_emb_Cons xs ys y)
  then show ?case by simp
next
  case (list_emb_Cons2 x y xs ys)
  then have "set xs \<subseteq> set ys"
    by (simp add: subseq_subset)
  with list_emb_Cons2 show ?case by auto
qed

lemma mset_sort_insert: "mset (sort_insert f x ys) = add_mset x (mset ys)"
  by (induction ys) simp_all

lemma mset_js_sort: "mset (js_sort f xs) = mset xs"
  by (induction xs) (simp_all add: js_sort_def mset_sort_insert)

lemma set_sort_insert: "set (sort_insert f x ys) = insert x (set ys)"
  using mset_sort_insert [of f x ys] by (metis set_mset_add_mset_insert set_mset_mset)

lemma set_js_sort: "set (js_sort f xs) = set xs"
  using mset_js_sort [of f xs] by (metis set_mset_mset)

text \<open>Rounding to a double keeps the sign, so the comparator, rounded as it is, is
  positive exactly when the exact difference is.\<close>

lemma excess_quotient_pos: "0 < n \<Longrightarrow> 0 < n div 2 ^ excessBits n"
proof (induction n rule: excessBits.induct)
  case (1 n)
  show ?case
  proof (cases "n < 2 ^ 53")
    case True
    with "1.prems" show ?thesis
      by (simp add: excessBits.simps)
  next
    case False
    then have "0 < n div 2" by simp
    with False "1.IH" have "0 < (n div 2) div 2 ^ excessBits (n div 2)" by simp
    moreover from False have "excessBits n = Suc (excessBits (n div 2))"
      by (simp add: excessBits.simps)
    ultimately show ?thesis
      by (simp add: div_mult2_eq)
  qed
qed

lemma roundNat_pos: "0 < n \<Longrightarrow> 0 < roundNat n"
  using excess_quotient_pos [of n] by (simp add: roundNat_def Let_def)

lemma roundNat_zero: "roundNat 0 = 0"
  by (simp add: roundNat_def Let_def)

lemma comparator_positive_toDouble: "comparator_positive (toDouble i) = (0 < i)"
proof (cases "0 < i")
  case True
  then have "0 < roundNat (nat \<bar>i\<bar>)"
    by (intro roundNat_pos) simp
  with True show ?thesis
    by (simp add: toDouble_def Let_def)
next
  case False
  then show ?thesis
    by (cases "i = 0") (simp_all add: toDouble_def Let_def roundNat_zero)
qed

lemma toDouble_not_NaN: "toDouble i \<noteq> NaN"
  by (simp add: toDouble_def Let_def)

lemma comparator_positive_compareOrder:
  "is_integer (order a) \<Longrightarrow> is_integer (order b) \<Longrightarrow>
   comparator_positive (compareOrder a b) = (order_int b < order_int a)"
  by (cases "order a"; cases "order b")
    (simp_all add: compareOrder_def order_int_def comparator_positive_toDouble)

lemma sorted_sort_insert:
  assumes "is_integer (order x)" and "\<forall>y \<in> set ys. is_integer (order y)"
    and "sorted (map order_int ys)"
  shows "sorted (map order_int (sort_insert compareOrder x ys))"
  using assms
  by (induction ys) (auto simp: comparator_positive_compareOrder set_sort_insert)

lemma sorted_js_sort:
  assumes "\<forall>x \<in> set xs. is_integer (order x)"
  shows "sorted (map order_int (js_sort compareOrder xs))"
  using assms
proof (induction xs)
  case Nil
  then show ?case by (simp add: js_sort_def)
next
  case (Cons x xs)
  then have "sorted (map order_int (js_sort compareOrder xs))" by simp
  with Cons.prems show ?case
    using sorted_sort_insert [of x "js_sort compareOrder xs"]
    by (simp add: js_sort_def set_js_sort [unfolded js_sort_def])
qed

lemma order_of_location:
  "order (migrationLocationToMigration loc) = parseInt (name (migrationLocationToMigration loc))"
  by (simp add: migrationLocationToMigration_def Let_def)

lemma findAllLoop_eq:
  "findAllLoop env paths acc =
     (if \<forall>p \<in> set paths. \<not> isl (glob env (p @ ''/*.js''))
      then Inr (acc @ map migrationLocationToMigration (globbed env paths))
      else Inl (projl (glob env (hd (filter (\<lambda>p. isl (glob env (p @ ''/*.js''))) paths) @ ''/*.js''))))"
  by (induction paths arbitrary: acc)
    (auto simp: findMigrationsIn_def globbed_def split: sum.splits)

lemma strict_order_sorted:
  assumes "\<forall>d \<in> set found. is_integer (order d)" and "distinct (map order found)"
  shows "sorted_wrt (\<lambda>a b. jsnum_less (order a) (order b)) (js_sort compareOrder found)"
proof -
  let ?s = "js_sort compareOrder found"
  have num: "order d = Num (order_int d)" if "d \<in> set found" for d
    using assms(1) that by (cases "order d") (auto simp: order_int_def)
  have "inj_on order_int (set found)"
  proof (rule inj_onI)
    fix a b assume "a \<in> set found" "b \<in> set found" "order_int a = order_int b"
    with num [of a] num [of b] have "order a = order b" by simp
    with assms(2) \<open>a \<in> set found\<close> \<open>b \<in> set found\<close> show "a = b"
      by (meson distinct_map inj_onD)
  qed
  with assms(2) have "distinct (map order_int found)"
    by (simp add: distinct_map)
  moreover have "mset (map order_int ?s) = mset (map order_int found)"
    by (simp add: mset_js_sort)
  ultimately have "distinct (map order_int ?s)"
    by (metis mset_eq_imp_distinct_iff)
  moreover have "sorted (map order_int ?s)"
    using assms(1) by (rule sorted_js_sort)
  ultimately have "sorted_wrt (<) (map order_int ?s)"
    by (simp add: strict_sorted_iff)
  then have "sorted_wrt (\<lambda>a b. order_int a < order_int b) ?s"
    by (simp add: sorted_wrt_map)
  moreover have "jsnum_less (order a) (order b) = (order_int a < order_int b)"
    if "a \<in> set ?s" "b \<in> set ?s" for a b
    using that num [of a] num [of b] by (simp add: set_js_sort)
  ultimately show ?thesis
    by (simp add: sorted_wrt_iff_nth_less)
qed

lemma mset_array_sort: "mset (array_sort env xs) = mset xs"
  by (simp add: array_sort_def mset_js_sort)

lemma set_array_sort: "set (array_sort env xs) = set xs"
  using mset_array_sort [of env xs] by (metis set_mset_mset)

text \<open>Descriptors that come from locations and have distinct order keys have
  distinct names: the key is computed from the name.\<close>

lemma distinct_names:
  assumes "found = map migrationLocationToMigration files" and "distinct (map order found)"
  shows "distinct (map name found)"
proof -
  have "map order found = map parseInt (map name found)"
    by (simp add: assms(1) order_of_location)
  with assms(2) show ?thesis
    by (metis distinct_map)
qed

text \<open>Whatever the units do, the first pending descriptor is entered: nothing ran
  before it.\<close>

lemma applyAllLoop_first_pending:
  assumes "migrations_table (db w) = Some rows"
    and "filter (\<lambda>m. name m \<notin> set rows) xs = y # ys"
    and "applyAllLoop env xs n w = (r, w')"
  shows "\<exists>tr rest. trace w' = trace w @ tr \<and> started tr = name y # rest"
  using assms
proof (induction xs arbitrary: n w)
  case Nil
  then show ?case by simp
next
  case (Cons m ms)
  show ?case
  proof (cases "name m \<in> set rows")
    case True
    with Cons.prems have "applyAllLoop env ms n (emits [SelectCount (name m)] w) = (r, w')"
      and "filter (\<lambda>m. name m \<notin> set rows) ms = y # ys"
      by (simp_all add: applyAllLoop_Cons)
    from Cons.IH [OF _ this(2,1)] Cons.prems(1) obtain tr rest where
      "trace w' = trace w @ SelectCount (name m) # tr" "started tr = name y # rest"
      by auto
    then show ?thesis
      by (intro exI [of _ "SelectCount (name m) # tr"] exI [of _ rest]) simp
  next
    case False
    with Cons.prems(2) have y: "y = m" by simp
    obtain r1 w1 where
      a: "underscore_applyMigration env m (emits [SelectCount (name m)] w) = (r1, w1)"
      by (cases "underscore_applyMigration env m (emits [SelectCount (name m)] w)")
    from underscore_applyMigration_trace [OF a] obtain t1 where
      t1: "trace w1 = trace w @ SelectCount (name m) # t1" "started t1 = [name m]"
      by auto
    show ?thesis
    proof (cases r1)
      case (Inl e)
      with a False Cons.prems have "w' = w1"
        by (simp add: applyAllLoop_Cons)
      with t1 y show ?thesis
        by (intro exI [of _ "SelectCount (name m) # t1"] exI [of _ "[]"]) simp
    next
      case (Inr b)
      with a False Cons.prems obtain n1 where "applyAllLoop env ms n1 w1 = (r, w')"
        by (auto simp: applyAllLoop_Cons)
      from applyAllLoop_trace [OF this] obtain tr where "trace w' = trace w1 @ tr"
        by auto
      with t1 y show ?thesis
        by (intro exI [of _ "SelectCount (name m) # t1 @ tr"] exI [of _ "started tr"]) simp
    qed
  qed
qed

subsection \<open>C3: applies happen in ascending order of the keys\<close>

text \<open>
  Claim C3. Let \<open>found\<close> be the descriptors discovered across the roots, all with
  integer order keys (finite numbers, as the source holds them: doubles), pairwise
  distinct. Then \<^verbatim>\<open>findAllMigrations\<close> yields them sorted, and the guard of
  \<^verbatim>\<open>applyAllMigrations\<close> asks for them in that order, for all of them when the
  batch completes. The applies that the batch enters, in the order it enters them,
  are for descriptors \<open>applied\<close> taken from \<open>found\<close>, in the order of the sorted
  sequence, and their order keys are strictly ascending, whichever root each came
  from. The order key of a descriptor is \<^verbatim>\<open>parseInt\<close> of its name, so the keys of
  the names printed by the applies are strictly ascending too. When some descriptor
  is pending, the first pending one of the sorted sequence is the first apply
  entered. Where the units leave the ledger alone, the applies entered are exactly the pending descriptors of the
  sorted sequence, all of them when the batch completes, and up to the failing one
  (at least that one) when it is stopped by an error.
\<close>

theorem applyAll_ascending_order:
  assumes "findAllLoop env paths [] = Inr found"
    and "\<forall>d \<in> set found. is_integer (order d)"
    and "distinct (map order found)"
    and "applyAllMigrations env paths w = (r, w')"
  shows "findAllMigrations env paths = Inr (js_sort compareOrder found) \<and>
         (\<exists>applied. started (new_events w w') = map name applied \<and>
            subseq applied (js_sort compareOrder found) \<and>
            set applied \<subseteq> set found \<and>
            sorted_wrt (\<lambda>a b. jsnum_less (order a) (order b)) applied) \<and>
         sorted_wrt jsnum_less (map parseInt (started (new_events w w'))) \<and>
         prefix (guarded (new_events w w')) (map name (js_sort compareOrder found)) \<and>
         (\<not> isl r \<longrightarrow> guarded (new_events w w') = map name (js_sort compareOrder found)) \<and>
         (pending (db w) (js_sort compareOrder found) \<noteq> [] \<longrightarrow>
            started (new_events w w') \<noteq> [] \<and>
            hd (started (new_events w w')) =
              name (hd (pending (db w) (js_sort compareOrder found)))) \<and>
         (units_keep_ledger env \<longrightarrow>
            prefix (started (new_events w w'))
              (map name (pending (db w) (js_sort compareOrder found))) \<and>
            (\<not> isl r \<longrightarrow>
               started (new_events w w') =
                 map name (pending (db w) (js_sort compareOrder found))) \<and>
            (isl r \<longrightarrow> started (new_events w w') \<noteq> []))"
proof -
  let ?s = "js_sort compareOrder found"
  from assms(1,2) have f: "findAllMigrations env paths = Inr ?s"
    by (simp add: findAllMigrations_def array_sort_def)
  obtain w0 t0 where c: "createMigrationTable w = (Inr (), w0)"
    and t0: "trace w0 = trace w @ t0" "started t0 = []" "guarded t0 = []"
    and tb: "migrations_table (db w0) = Some (ledger_rows (db w))"
    by (cases "migrations_table (db w)") (auto simp: createMigrationTable_eq ledger_rows_def)
  obtain rl wl where l: "applyAllLoop env ?s 0 w0 = (rl, wl)"
    by (cases "applyAllLoop env ?s 0 w0")
  from applyAllLoop_trace [OF l] obtain tr ys where
    tr: "trace wl = trace w0 @ tr" "subseq ys ?s" "started tr = map name ys"
    by auto
  have fin: "\<exists>last. trace w' = trace wl @ last \<and> started last = [] \<and> guarded last = []"
    and rr: "isl r = isl rl"
    using c f l assms(4)
    by (cases rl; auto simp: applyAllMigrations_def emit_def split: if_splits)+
  from fin obtain last where last: "trace w' = trace wl @ last" "started last = []" "guarded last = []"
    by auto
  from t0 tr last have ne: "new_events w w' = t0 @ tr @ last"
    by (simp add: new_events_def)
  with t0 tr last have s: "started (new_events w w') = map name ys"
    by simp
  from tr(2) have sub: "set ys \<subseteq> set found"
    using subseq_subset [of ys ?s] by (simp add: set_js_sort)
  from strict_order_sorted [OF assms(2,3)] tr(2)
  have so: "sorted_wrt (\<lambda>a b. jsnum_less (order a) (order b)) ys"
    by (rule sorted_wrt_subseq [rotated])
  from assms(1) have fl: "found = map migrationLocationToMigration (globbed env paths)"
    by (simp add: findAllLoop_eq split: if_splits)
  with sub have "\<forall>d \<in> set ys. order d = parseInt (name d)"
    by (auto simp: order_of_location)
  then have eq: "map parseInt (map name ys) = map order ys"
    by simp
  from so have "sorted_wrt jsnum_less (map order ys)"
    by (simp add: sorted_wrt_map)
  then have "sorted_wrt jsnum_less (map parseInt (map name ys))"
    by (simp only: eq)
  with s have 3: "sorted_wrt jsnum_less (map parseInt (started (new_events w w')))"
    by simp
  from s tr(2) sub so have 2: "\<exists>applied. started (new_events w w') = map name applied \<and>
            subseq applied ?s \<and> set applied \<subseteq> set found \<and>
            sorted_wrt (\<lambda>a b. jsnum_less (order a) (order b)) applied"
    by (intro exI [of _ ys]) simp
  from applyAllLoop_statements [OF l] tr(1) have
    "prefix (guarded tr) (map name ?s)" "\<not> isl rl \<longrightarrow> guarded tr = map name ?s"
    by auto
  with ne t0 last rr have 4: "prefix (guarded (new_events w w')) (map name ?s)"
    "\<not> isl r \<longrightarrow> guarded (new_events w w') = map name ?s"
    by simp_all
  have 5: "prefix (started (new_events w w')) (map name (pending (db w) ?s)) \<and>
            (\<not> isl r \<longrightarrow> started (new_events w w') = map name (pending (db w) ?s)) \<and>
            (isl r \<longrightarrow> started (new_events w w') \<noteq> [])"
    if keep: "units_keep_ledger env"
  proof -
    from distinct_names [OF fl assms(3)] have "distinct (map name found)" .
    moreover have "mset (map name ?s) = mset (map name found)"
      by (simp add: mset_js_sort)
    ultimately have d: "distinct (map name ?s)"
      by (metis mset_eq_imp_distinct_iff)
    from applyAllLoop_entered [OF keep tb d l] tr(1) have
      "prefix (started tr) (map name (pending (db w) ?s))"
      "\<not> isl rl \<longrightarrow> started tr = map name (pending (db w) ?s)"
      "isl rl \<longrightarrow> started tr \<noteq> []"
      by (auto simp: pending_def)
    with ne t0 last rr show ?thesis
      by simp
  qed
  have 6: "started (new_events w w') \<noteq> [] \<and>
      hd (started (new_events w w')) = name (hd (pending (db w) ?s))"
    if "pending (db w) ?s \<noteq> []"
  proof -
    from that obtain y ys' where p: "filter (\<lambda>m. name m \<notin> set (ledger_rows (db w))) ?s = y # ys'"
      by (cases "pending (db w) ?s") (auto simp: pending_def)
    from applyAllLoop_first_pending [OF tb p l] tr(1) obtain rest where
      "started tr = name y # rest"
      by auto
    with ne t0 last p show ?thesis
      by (simp add: pending_def)
  qed
  from f 2 3 4 5 6 show ?thesis by blast
qed

theorem applyAll_ascending_order_witness:
  "findAllLoop example_env [''P1'', ''P2''] [] = Inr [m10, m30, m20] \<and>
   order m10 = Num 10 \<and> order m30 = Num 30 \<and> order m20 = Num 20 \<and>
   distinct (map order [m10, m30, m20]) \<and>
   units_keep_ledger example_env \<and>
   js_sort compareOrder [m10, m30, m20] = [m10, m20, m30] \<and>
   pending (db empty_world) [m10, m20, m30] = [m10, m20, m30] \<and>
   started (new_events empty_world (snd (applyAllMigrations example_env [''P1'', ''P2''] empty_world))) =
     [''10-create_users'', ''20-add_email'', ''30-add_index''] \<and>
   guarded (new_events empty_world (snd (applyAllMigrations example_env [''P1'', ''P2''] empty_world))) =
     [''10-create_users'', ''20-add_email'', ''30-add_index''] \<and>
   sorted_wrt jsnum_less
     (map parseInt
        (started (new_events empty_world
           (snd (applyAllMigrations example_env [''P1'', ''P2''] empty_world)))))"
proof -
  have f: "findAllLoop example_env [''P1'', ''P2''] [] = Inr [m10, m30, m20]"
    by (rule example_found)
  have o: "order m10 = Num 10" "order m30 = Num 30" "order m20 = Num 20"
    by (simp_all add: m10_def m20_def m30_def)
  then have n: "\<forall>d \<in> set [m10, m30, m20]. is_integer (order d)"
    and d: "distinct (map order [m10, m30, m20])"
    by simp_all
  have k: "units_keep_ledger example_env"
    by (rule example_env_keeps_ledger)
  have j: "js_sort compareOrder [m10, m30, m20] = [m10, m20, m30]"
    by (simp add: js_sort_def compareOrder_def toDouble_small m10_def m20_def m30_def)
  have p: "pending (db empty_world) [m10, m20, m30] = [m10, m20, m30]"
    by (simp add: pending_def ledger_rows_def empty_world_def)
  have e: "\<not> isl (fst (applyAllMigrations example_env [''P1'', ''P2''] empty_world))"
    by (simp only: example_run fst_conv) simp
  from applyAll_ascending_order [OF f n d surjective_pairing, of empty_world] k e
  have "sorted_wrt jsnum_less
     (map parseInt
        (started (new_events empty_world
           (snd (applyAllMigrations example_env [''P1'', ''P2''] empty_world)))))"
    and "guarded (new_events empty_world
        (snd (applyAllMigrations example_env [''P1'', ''P2''] empty_world))) =
      map name (js_sort compareOrder [m10, m30, m20])"
    and "started (new_events empty_world
        (snd (applyAllMigrations example_env [''P1'', ''P2''] empty_world))) =
      map name (pending (db empty_world) (js_sort compareOrder [m10, m30, m20]))"
    by blast+
  then show ?thesis
    using f o d k j p by (simp add: m10_def m20_def m30_def)
qed

subsection \<open>C5: a file name without an order key\<close>

lemma location_readme: "migrationLocationToMigration ''P3/readme.js'' = readme"
  by (simp add: readme_def migrationLocationToMigration_def slice_def parseInt_def isWhiteSpace_def
      isRadixDigit_def digitValue_def Let_def)

text \<open>
  Claim C5 as stated: discovery fails with an invalid-name error on a file whose
  order key cannot be parsed. The code has no such check: the file
  \<^verbatim>\<open>P3/readme.js\<close>, whose name parses to \<open>NaN\<close>, is discovered without error.
\<close>

theorem discovery_counterexample:
  "parseInt (name (migrationLocationToMigration ''P3/readme.js'')) = NaN \<and>
   findMigrationsIn example_env ''P3'' = Inr [readme] \<and>
   findAllMigrations example_env [''P3''] = Inr [readme] \<and>
   \<not> isl (findAllMigrations example_env [''P3''])"
  by (simp add: findAllMigrations_def findMigrationsIn_def example_env_def example_files_def
      location_readme array_sort_def)
    (simp add: readme_def parseInt_def isWhiteSpace_def isRadixDigit_def digitValue_def Let_def)

text \<open>
  Claim C5, amended. Discovery never fails on account of a name: it fails exactly
  when a \<^verbatim>\<open>glob\<close> fails. When it succeeds it returns one descriptor for each
  globbed file, none skipped, and a file whose order key cannot be parsed is among
  them with the order \<open>NaN\<close>, which is no number (and not zero). In one root,
  \<^verbatim>\<open>findMigrationsIn\<close> maps every file to its descriptor.
\<close>

theorem discovery_keeps_unparsable:
  "isl (findAllMigrations env paths) = (\<exists>p \<in> set paths. isl (glob env (p @ ''/*.js''))) \<and>
   (\<forall>ms. findAllMigrations env paths = Inr ms \<longrightarrow>
      mset ms = mset (map migrationLocationToMigration (globbed env paths)) \<and>
      (\<forall>f \<in> set (globbed env paths).
         parseInt (name (migrationLocationToMigration f)) = NaN \<longrightarrow>
         migrationLocationToMigration f \<in> set ms \<and>
         order (migrationLocationToMigration f) = NaN)) \<and>
   (\<forall>files. glob env (dir @ ''/*.js'') = Inr files \<longrightarrow>
      findMigrationsIn env dir = Inr (map migrationLocationToMigration files))"
proof (intro conjI allI impI ballI)
  show "isl (findAllMigrations env paths) = (\<exists>p \<in> set paths. isl (glob env (p @ ''/*.js'')))"
    by (simp add: findAllMigrations_def findAllLoop_eq)
next
  fix ms assume "findAllMigrations env paths = Inr ms"
  then have ms: "ms = array_sort env (map migrationLocationToMigration (globbed env paths))"
    by (auto simp: findAllMigrations_def findAllLoop_eq split: if_splits)
  then show m: "mset ms = mset (map migrationLocationToMigration (globbed env paths))"
    by (simp add: mset_array_sort)
  fix f assume "f \<in> set (globbed env paths)"
    and "parseInt (name (migrationLocationToMigration f)) = NaN"
  then show "migrationLocationToMigration f \<in> set ms"
    and "order (migrationLocationToMigration f) = NaN"
    by (simp_all add: ms set_array_sort order_of_location)
next
  fix files assume "glob env (dir @ ''/*.js'') = Inr files"
  then show "findMigrationsIn env dir = Inr (map migrationLocationToMigration files)"
    by (simp add: findMigrationsIn_def)
qed

theorem discovery_keeps_unparsable_witness:
  "glob example_env (''P3'' @ ''/*.js'') = Inr [''P3/readme.js''] \<and>
   globbed example_env [''P3'', ''P2''] = [''P3/readme.js'', ''P2/20-add_email.js''] \<and>
   parseInt (name (migrationLocationToMigration ''P3/readme.js'')) = NaN \<and>
   \<not> isl (findAllMigrations example_env [''P3'', ''P2'']) \<and>
   mset (projr (findAllMigrations example_env [''P3'', ''P2''])) = {#readme, m20#} \<and>
   findMigrationsIn example_env ''P3'' = Inr [readme]"
proof -
  have g: "glob example_env (''P3'' @ ''/*.js'') = Inr [''P3/readme.js'']"
    "glob example_env (''P2'' @ ''/*.js'') = Inr [''P2/20-add_email.js'']"
    by (simp_all add: example_env_def example_files_def)
  then have gl: "globbed example_env [''P3'', ''P2''] = [''P3/readme.js'', ''P2/20-add_email.js'']"
    by (simp add: globbed_def)
  have n: "parseInt (name (migrationLocationToMigration ''P3/readme.js'')) = NaN"
    by (simp add: location_readme readme_def parseInt_def isWhiteSpace_def isRadixDigit_def
        digitValue_def Let_def)
  from discovery_keeps_unparsable [of example_env "[''P3'', ''P2'']" "''P3''"] g
  have 1: "\<not> isl (findAllMigrations example_env [''P3'', ''P2''])"
    and 2: "\<forall>ms. findAllMigrations example_env [''P3'', ''P2''] = Inr ms \<longrightarrow>
      mset ms = mset (map migrationLocationToMigration (globbed example_env [''P3'', ''P2'']))"
    and 3: "findMigrationsIn example_env ''P3'' = Inr (map migrationLocationToMigration [''P3/readme.js''])"
    by simp_all
  from 1 obtain ms where ms: "findAllMigrations example_env [''P3'', ''P2''] = Inr ms"
    by (cases "findAllMigrations example_env [''P3'', ''P2'']") auto
  with 2 have "mset ms = {#readme, m20#}"
    by (simp add: gl location_readme location_20_add_email)
  with ms 1 3 g gl n show ?thesis
    by (simp add: location_readme)
qed

subsection \<open>C10: the descriptor of a location\<close>

lemma lastIndexOf_absent: "c \<notin> set s \<Longrightarrow> lastIndexOf s c = - 1"
  by (induction s) (auto simp: Let_def)

lemma lastIndexOf_last: "c \<notin> set b \<Longrightarrow> lastIndexOf (a @ c # b) c = int (length a)"
  by (induction a) (simp_all add: Let_def lastIndexOf_absent)

lemma slash_index:
  assumes "dir = [] \<or> last dir = CHR ''/''" and "CHR ''/'' \<notin> set rest"
  shows "lastIndexOf (dir @ rest) CHR ''/'' + 1 = int (length dir)"
proof (cases "dir = []")
  case True
  with assms show ?thesis by (simp add: lastIndexOf_absent)
next
  case False
  with assms(1) obtain d where "dir = d @ [CHR ''/'']"
    by (metis append_butlast_last_id)
  with assms(2) show ?thesis
    using lastIndexOf_last [of "CHR ''/''" rest d] by simp
qed

lemma slice_middle:
  "slice (a @ b @ c) (int (length a)) (int (length a) + int (length b)) = b"
  by (simp add: slice_def Let_def min_def)

lemma name_with_extension:
  assumes "loc = dir @ base @ CHR ''.'' # ext" and "dir = [] \<or> last dir = CHR ''/''"
    and "CHR ''/'' \<notin> set base" and "CHR ''/'' \<notin> set ext" and "CHR ''.'' \<notin> set ext"
  shows "name (migrationLocationToMigration loc) = base"
proof -
  have 1: "lastIndexOf (dir @ base @ CHR ''.'' # ext) CHR ''/'' + 1 = int (length dir)"
    using assms(2,3,4) by (intro slash_index) auto
  have "lastIndexOf ((dir @ base) @ CHR ''.'' # ext) CHR ''.'' = int (length (dir @ base))"
    using assms(5) by (rule lastIndexOf_last)
  then have 2: "lastIndexOf (dir @ base @ CHR ''.'' # ext) CHR ''.'' =
      int (length dir) + int (length base)"
    by simp
  show ?thesis
    unfolding assms(1) migrationLocationToMigration_def Let_def 1 2
    by (simp add: slice_middle)
qed

lemma name_without_extension:
  assumes "loc = dir @ base" and "dir = [] \<or> last dir = CHR ''/''"
    and "CHR ''/'' \<notin> set base" and "CHR ''.'' \<notin> set loc"
  shows "name (migrationLocationToMigration loc) = butlast base"
proof -
  have 1: "lastIndexOf (dir @ base) CHR ''/'' + 1 = int (length dir)"
    using assms(2,3) by (rule slash_index)
  have 2: "lastIndexOf (dir @ base) CHR ''.'' = - 1"
    using assms(4) unfolding assms(1) by (rule lastIndexOf_absent)
  have 3: "nat (int (length base) - 1) = length base - Suc 0"
    by arith
  show ?thesis
    unfolding assms(1) migrationLocationToMigration_def Let_def 1 2
    by (simp add: slice_def Let_def butlast_conv_take max_def 3)
qed

lemma name_dot_before_slash:
  assumes "loc = a @ CHR ''.'' # b @ CHR ''/'' # base"
    and "CHR ''.'' \<notin> set b" and "CHR ''.'' \<notin> set base" and "CHR ''/'' \<notin> set base"
  shows "name (migrationLocationToMigration loc) = []"
proof -
  have "lastIndexOf ((a @ CHR ''.'' # b) @ CHR ''/'' # base) CHR ''/'' = int (length (a @ CHR ''.'' # b))"
    using assms(4) by (rule lastIndexOf_last)
  then have 1: "lastIndexOf (a @ CHR ''.'' # b @ CHR ''/'' # base) CHR ''/'' =
      int (length a) + int (length b) + 1"
    by simp
  have 2: "lastIndexOf (a @ CHR ''.'' # b @ CHR ''/'' # base) CHR ''.'' = int (length a)"
    using assms(2,3) by (intro lastIndexOf_last) auto
  show ?thesis
    unfolding assms(1) migrationLocationToMigration_def Let_def 1 2
    by (simp add: slice_def Let_def)
qed

lemma isRadixDigit_10: "isRadixDigit 10 c = isDecimalDigit c"
  by (auto simp: isRadixDigit_def digitValue_def isDecimalDigit_def Let_def)

lemma digit_not_space_or_sign:
  "isDecimalDigit c \<Longrightarrow> \<not> isWhiteSpace c \<and> c \<noteq> CHR ''+'' \<and> c \<noteq> CHR ''-''"
  by (auto simp: isDecimalDigit_def isWhiteSpace_def)

lemma parseInt_leading_digit:
  assumes "n \<noteq> []" and "isDecimalDigit (hd n)" and "\<not> hex_prefixed n"
  shows "parseInt n = toDouble (int (toMathInt 10 (takeWhile isDecimalDigit n)))"
proof -
  from assms(1) obtain c rest where n: "n = c # rest" by (cases n) auto
  with assms(2) have c: "isDecimalDigit c" by simp
  have r: "isRadixDigit 10 = isDecimalDigit"
    by (rule ext) (rule isRadixDigit_10)
  from c digit_not_space_or_sign [OF c] assms(3) show ?thesis
    unfolding n
    by (auto simp: parseInt_def hex_prefixed_def Let_def r)
qed

text \<open>A number of at most fifteen decimal digits is below \<open>2 ^ 53\<close>.\<close>

lemma digits_bound:
  assumes "\<forall>c \<in> set ds. isDecimalDigit c"
  shows "foldl (\<lambda>acc c. case digitValue c of None \<Rightarrow> acc | Some v \<Rightarrow> acc * 10 + v) acc ds + 1
           \<le> (acc + 1) * 10 ^ length ds"
  using assms
proof (induction ds arbitrary: acc)
  case Nil
  then show ?case by simp
next
  case (Cons c ds)
  then obtain v where v: "digitValue c = Some v" "v \<le> 9"
    by (auto simp: isDecimalDigit_def digitValue_def Let_def)
  let ?f = "\<lambda>acc c. case digitValue c of None \<Rightarrow> acc | Some v \<Rightarrow> acc * 10 + v"
  from Cons have "foldl ?f (acc * 10 + v) ds + 1 \<le> (acc * 10 + v + 1) * 10 ^ length ds"
    by simp
  also from v(2) have "\<dots> \<le> ((acc + 1) * 10) * 10 ^ length ds"
    by (intro mult_right_mono) simp_all
  finally show ?case
    by (simp add: v(1) algebra_simps)
qed

lemma fifteen_digits_small:
  assumes "length (takeWhile isDecimalDigit n) \<le> 15"
  shows "toMathInt 10 (takeWhile isDecimalDigit n) < 2 ^ 53"
proof -
  let ?ds = "takeWhile isDecimalDigit n"
  have "\<forall>c \<in> set ?ds. isDecimalDigit c"
    by (auto dest: set_takeWhileD)
  from digits_bound [OF this, of 0] have "toMathInt 10 ?ds < 10 ^ length ?ds"
    by (simp add: toMathInt_def)
  also from assms have "(10 :: nat) ^ length ?ds \<le> 10 ^ 15"
    by (intro power_increasing) simp_all
  also have "(10 :: nat) ^ 15 < 2 ^ 53"
    by simp
  finally show ?thesis .
qed

lemma parseInt_small:
  assumes "n \<noteq> []" and "isDecimalDigit (hd n)" and "\<not> hex_prefixed n"
    and "toMathInt 10 (takeWhile isDecimalDigit n) < 2 ^ 53"
  shows "parseInt n = leading_digits_order n"
proof -
  from assms(1,2) have "takeWhile isDecimalDigit n \<noteq> []"
    by (cases n) auto
  moreover from assms(4) have "toDouble (int (toMathInt 10 (takeWhile isDecimalDigit n))) =
      Num (int (toMathInt 10 (takeWhile isDecimalDigit n)))"
    by (intro toDouble_small) (simp add: of_nat_less_numeral_power_cancel_iff)
  ultimately show ?thesis
    using parseInt_leading_digit [OF assms(1,2,3)]
    by (simp add: leading_digits_order_def Let_def)
qed

lemma parseInt_no_digit:
  assumes "n = [] \<or> (\<not> isDecimalDigit (hd n) \<and> \<not> isWhiteSpace (hd n) \<and>
                      hd n \<noteq> CHR ''+'' \<and> hd n \<noteq> CHR ''-'')"
  shows "parseInt n = NaN"
proof (cases n)
  case Nil
  then show ?thesis by (simp add: parseInt_def)
next
  case (Cons c rest)
  with assms have c: "\<not> isDecimalDigit c" "\<not> isWhiteSpace c" "c \<noteq> CHR ''+''" "c \<noteq> CHR ''-''"
    by simp_all
  then have "c \<noteq> CHR ''0''" by (auto simp: isDecimalDigit_def)
  with c show ?thesis
    unfolding Cons
    by (simp add: parseInt_def Let_def isRadixDigit_10)
qed

text \<open>
  Claim C10 as stated: the order is the integer parsed from the leading digits of the
  name, and a name that does not begin with a decimal digit has a non-numeric order.
  \<^verbatim>\<open>parseInt\<close> also reads a sign, and a hexadecimal number after \<^verbatim>\<open>0x\<close>: the name
  \<^verbatim>\<open>-5-x\<close> begins with no digit and has the order \<open>-5\<close>, and \<^verbatim>\<open>0x1f-y\<close> has the
  order 31 where its leading digits give 0. And an order is a double: the leading
  digits \<^verbatim>\<open>9007199254740993\<close> are read as 9007199254740992.
\<close>

theorem descriptor_of_location_counterexample:
  "name (migrationLocationToMigration ''m/-5-x.js'') = ''-5-x'' \<and>
   \<not> isDecimalDigit (hd ''-5-x'') \<and>
   order (migrationLocationToMigration ''m/-5-x.js'') = Num (- 5) \<and>
   leading_digits_order ''-5-x'' = NaN \<and>
   order (migrationLocationToMigration ''m/0x1f-y.js'') = Num 31 \<and>
   leading_digits_order ''0x1f-y'' = Num 0 \<and>
   order (migrationLocationToMigration ''m/9007199254740993-z.js'') = Num 9007199254740992 \<and>
   leading_digits_order ''9007199254740993-z'' = Num 9007199254740993"
proof -
  have r: "toDouble 9007199254740993 = Num 9007199254740992"
    by (simp add: toDouble_def roundNat_def excessBits.simps Let_def)
  show ?thesis
    by (simp add: migrationLocationToMigration_def slice_def parseInt_def isWhiteSpace_def
        isRadixDigit_def digitValue_def toMathInt_def leading_digits_order_def isDecimalDigit_def
        toDouble_small r Let_def)
qed

text \<open>
  Claim C10, amended. For every location the descriptor is computed without any
  failure: its location is the argument and its order is \<^verbatim>\<open>parseInt\<close> of its name.
  When the location is \<open>dir @ base @ ''.'' @ ext\<close>, where \<open>dir\<close> is empty or ends in the
  last \<^verbatim>\<open>/\<close> and the dot is the last one, the name is \<open>base\<close>; when the location has
  no dot at all, the name is the base name without its final character; when the last
  dot comes before the last \<^verbatim>\<open>/\<close>, nothing lies between them and the name is
  empty. A name that begins with a decimal digit, and not with \<^verbatim>\<open>0x\<close> or \<^verbatim>\<open>0X\<close>,
  has as order the double nearest to the integer of its leading decimal digits, never
  \<open>NaN\<close>; that is the integer itself when it is below \<open>2 ^ 53\<close>, as it is for up to
  fifteen digits. A name that is empty, or begins with a character that is neither a
  digit, a sign nor white space, has the order \<open>NaN\<close>.
\<close>

theorem descriptor_of_location:
  "location (migrationLocationToMigration loc) = loc \<and>
   order (migrationLocationToMigration loc) = parseInt (name (migrationLocationToMigration loc)) \<and>
   (loc = dir @ base @ CHR ''.'' # ext \<and> (dir = [] \<or> last dir = CHR ''/'') \<and>
      CHR ''/'' \<notin> set base \<and> CHR ''/'' \<notin> set ext \<and> CHR ''.'' \<notin> set ext \<longrightarrow>
    name (migrationLocationToMigration loc) = base) \<and>
   (loc = dir @ base \<and> (dir = [] \<or> last dir = CHR ''/'') \<and>
      CHR ''/'' \<notin> set base \<and> CHR ''.'' \<notin> set loc \<longrightarrow>
    name (migrationLocationToMigration loc) = butlast base) \<and>
   (loc = dir @ CHR ''.'' # ext @ CHR ''/'' # base \<and>
      CHR ''.'' \<notin> set ext \<and> CHR ''.'' \<notin> set base \<and> CHR ''/'' \<notin> set base \<longrightarrow>
    name (migrationLocationToMigration loc) = []) \<and>
   (n \<noteq> [] \<and> isDecimalDigit (hd n) \<and> \<not> hex_prefixed n \<longrightarrow>
    parseInt n = toDouble (int (toMathInt 10 (takeWhile isDecimalDigit n))) \<and>
    parseInt n \<noteq> NaN \<and>
    (toMathInt 10 (takeWhile isDecimalDigit n) < 2 ^ 53 \<longrightarrow>
       parseInt n = leading_digits_order n) \<and>
    (length (takeWhile isDecimalDigit n) \<le> 15 \<longrightarrow>
       parseInt n = leading_digits_order n)) \<and>
   (n = [] \<or> (\<not> isDecimalDigit (hd n) \<and> \<not> isWhiteSpace (hd n) \<and>
                hd n \<noteq> CHR ''+'' \<and> hd n \<noteq> CHR ''-'') \<longrightarrow>
    parseInt n = NaN)"
proof (intro conjI impI)
  show "location (migrationLocationToMigration loc) = loc"
    by (simp add: migrationLocationToMigration_def Let_def)
  show "order (migrationLocationToMigration loc) = parseInt (name (migrationLocationToMigration loc))"
    by (rule order_of_location)
  show "name (migrationLocationToMigration loc) = base"
    if "loc = dir @ base @ CHR ''.'' # ext \<and> (dir = [] \<or> last dir = CHR ''/'') \<and>
      CHR ''/'' \<notin> set base \<and> CHR ''/'' \<notin> set ext \<and> CHR ''.'' \<notin> set ext"
    using that name_with_extension [of loc dir base ext] by blast
  show "name (migrationLocationToMigration loc) = butlast base"
    if "loc = dir @ base \<and> (dir = [] \<or> last dir = CHR ''/'') \<and>
      CHR ''/'' \<notin> set base \<and> CHR ''.'' \<notin> set loc"
    using that name_without_extension [of loc dir base] by blast
  show "name (migrationLocationToMigration loc) = []"
    if "loc = dir @ CHR ''.'' # ext @ CHR ''/'' # base \<and>
      CHR ''.'' \<notin> set ext \<and> CHR ''.'' \<notin> set base \<and> CHR ''/'' \<notin> set base"
    using that name_dot_before_slash [of loc dir ext base] by blast
  show "parseInt n = toDouble (int (toMathInt 10 (takeWhile isDecimalDigit n)))"
    if "n \<noteq> [] \<and> isDecimalDigit (hd n) \<and> \<not> hex_prefixed n"
    using that parseInt_leading_digit [of n] by blast
  show "parseInt n \<noteq> NaN"
    if "n \<noteq> [] \<and> isDecimalDigit (hd n) \<and> \<not> hex_prefixed n"
    using that parseInt_leading_digit [of n] by (simp add: toDouble_not_NaN)
  show "parseInt n = leading_digits_order n"
    if "n \<noteq> [] \<and> isDecimalDigit (hd n) \<and> \<not> hex_prefixed n"
      and "toMathInt 10 (takeWhile isDecimalDigit n) < 2 ^ 53"
    using that parseInt_small [of n] by blast
  show "parseInt n = leading_digits_order n"
    if "n \<noteq> [] \<and> isDecimalDigit (hd n) \<and> \<not> hex_prefixed n"
      and "length (takeWhile isDecimalDigit n) \<le> 15"
    using that parseInt_small [of n] fifteen_digits_small [of n] by blast
  show "parseInt n = NaN"
    if "n = [] \<or> (\<not> isDecimalDigit (hd n) \<and> \<not> isWhiteSpace (hd n) \<and>
                hd n \<noteq> CHR ''+'' \<and> hd n \<noteq> CHR ''-'')"
    using that by (rule parseInt_no_digit)
qed

theorem descriptor_of_location_witness:
  "name (migrationLocationToMigration ''P1/10-create_users.js'') = ''10-create_users'' \<and>
   order (migrationLocationToMigration ''P1/10-create_users.js'') = Num 10 \<and>
   parseInt ''10-create_users'' = leading_digits_order ''10-create_users'' \<and>
   name (migrationLocationToMigration ''P1/10-create_users'') = ''10-create_user'' \<and>
   parseInt ''readme'' = NaN"
proof -
  have a: "name (migrationLocationToMigration ''P1/10-create_users.js'') = ''10-create_users''"
    using descriptor_of_location [of "''P1/10-create_users.js''" "''P1/''" "''10-create_users''"
        "''js''" "''10-create_users''"]
    by simp
  have h: "''10-create_users'' \<noteq> [] \<and> isDecimalDigit (hd ''10-create_users'') \<and>
      \<not> hex_prefixed ''10-create_users''"
    by (simp add: isDecimalDigit_def hex_prefixed_def)
  have l: "length (takeWhile isDecimalDigit ''10-create_users'') \<le> 15"
    by (simp add: isDecimalDigit_def)
  have b: "parseInt ''10-create_users'' = leading_digits_order ''10-create_users''"
    using descriptor_of_location [of "''P1/10-create_users.js''" "''P1/''" "''10-create_users''"
        "''js''" "''10-create_users''"] h l
    by blast
  have c: "name (migrationLocationToMigration ''P1/10-create_users'') = ''10-create_user''"
    using descriptor_of_location [of "''P1/10-create_users''" "''P1/''" "''10-create_users''"
        "''js''" "''readme''"]
    by simp
  have d: "parseInt ''readme'' = NaN"
    using descriptor_of_location [of "''P1/10-create_users''" "''P1/''" "''10-create_users''"
        "''js''" "''readme''"]
    by (simp add: isDecimalDigit_def isWhiteSpace_def)
  have e: "order (migrationLocationToMigration ''P1/10-create_users.js'') = Num 10"
    by (simp add: location_10_create_users m10_def)
  from a b c d e show ?thesis by simp
qed

end
